theory Spec2Isabelle
  imports Main "HOL-Library.Multiset"
begin

section \<open>Python values\<close>

text \<open>
  A Python \<open>str\<close> is a sequence of Unicode code points, and \<open>len\<close> counts code points.
  It is modelled as a list of code points, so that titles outside ASCII are covered and
  lengths are the ones Python computes. \<open>ustr\<close> reads an ASCII literal.
\<close>

type_synonym pystr = "nat list"

definition ustr :: "string \<Rightarrow> pystr" where
  "ustr s = map of_char s"

text \<open>Truthiness of an optional string: \<open>None\<close> and \<open>''\<close> are falsy.\<close>

fun truthy :: "pystr option \<Rightarrow> bool" where
  "truthy None = False"
| "truthy (Some s) = (s \<noteq> [])"

text \<open>
  The value of a key of a dictionary: the key is missing, its value is \<open>None\<close>, or it
  has a value. \<open>d.get(key, default)\<close> gives the default only when the key is missing;
  its result is \<open>None\<close> when the value is.
\<close>

datatype 'a dict_value = Missing | PyNone | Val 'a

fun dict_get :: "'a dict_value \<Rightarrow> 'a \<Rightarrow> 'a option" where
  "dict_get Missing fallback = Some fallback"
| "dict_get PyNone fallback = None"
| "dict_get (Val v) fallback = Some v"

text \<open>The exceptions of Python that the model follows.\<close>

datatype py_error = ValueError | AttributeError | TypeError

text \<open>\<open>str(n)\<close> for an integer: decimal digits, with a leading minus sign when negative.\<close>

function dec_digits :: "nat \<Rightarrow> pystr" where
  "dec_digits n = (if n < 10 then [48 + n] else dec_digits (n div 10) @ [48 + n mod 10])"
  by pat_completeness auto
termination
  by (relation "measure id") auto

declare dec_digits.simps [simp del]

definition py_str :: "int \<Rightarrow> pystr" where
  "py_str i = (if i < 0 then 45 # dec_digits (nat (- i)) else dec_digits (nat i))"

section \<open>The catalog (src/database.py)\<close>

text \<open>
  One row of table \<open>episodes\<close>. \<open>id\<close> is written \<open>row_id\<close>. \<open>downloaded_date\<close> is the
  text of \<open>datetime.now().isoformat()\<close>; the only thing the code does with it is
  \<open>ORDER BY\<close>, so its type is left open: any linearly ordered type \<open>'t\<close>.
  Nullable columns are options.
\<close>

record 't row =
  row_id :: int
  podcast_name :: pystr
  episode_title :: pystr
  episode_url :: pystr
  episode_guid :: "pystr option"
  published_date :: "pystr option"
  downloaded_date :: 't
  file_path :: "pystr option"
  drive_file_id :: "pystr option"
  file_size :: "int option"
  status :: pystr
  in_drive :: int
  drive_file_url :: "pystr option"
  podcast_seq :: "int option"

text \<open>One row of table \<open>podcasts\<close>.\<close>

record 't podcast_row =
  pod_id :: int
  pod_name :: pystr
  pod_rss_url :: pystr
  pod_folder_name :: pystr
  pod_last_checked :: "'t option"
  pod_drive_folder_id :: "pystr option"
  pod_enabled :: bool
  pod_keep_count :: "int option"

text \<open>One row of table \<open>run_history\<close> (created by \<open>log_run_history\<close> in main.py).\<close>

record 't history_row =
  hist_timestamp :: 't
  hist_run_type :: pystr
  hist_status :: pystr
  hist_message :: "pystr option"

text \<open>
  The database: each table in insertion order, and the two \<open>SERIAL\<close> counters. Every
  method of \<open>PodcastDatabase\<close> opens a connection, runs its statements, commits and
  closes, so a method is one function from catalog to catalog. Loss of the connection
  is not part of this model; the constraints of the schema are.
\<close>

record 't catalog =
  episodes :: "'t row list"
  next_episode_id :: int
  podcasts :: "'t podcast_row list"
  next_podcast_id :: int
  run_history :: "'t history_row list"

datatype db_error = UniqueViolation | NotNullViolation

text \<open>SQL \<open>MAX\<close> over the non-NULL values of a column: NULL when there is none.\<close>

fun sql_max :: "int list \<Rightarrow> int option" where
  "sql_max [] = None"
| "sql_max (x # xs) = Some (fold max xs x)"

text \<open>The non-NULL \<open>podcast_seq\<close> values of a feed, in insertion order.\<close>

definition seqs_of :: "pystr \<Rightarrow> 't catalog \<Rightarrow> int list" where
  "seqs_of name db =
     List.map_filter podcast_seq (filter (\<lambda>r. podcast_name r = name) (episodes db))"

text \<open>\<open>SELECT MAX(podcast_seq) FROM episodes WHERE podcast_name = %s\<close>\<close>

definition max_podcast_seq :: "pystr \<Rightarrow> 't catalog \<Rightarrow> int option" where
  "max_podcast_seq name db = sql_max (seqs_of name db)"

text \<open>
  \<open>add_episode\<close>. The argument \<open>now\<close> is the reading of \<open>datetime.now()\<close>. The
  \<open>INSERT\<close> draws the next value of the \<open>SERIAL\<close> counter (drawn also when the
  statement fails) and raises when \<open>episode_url\<close> (\<open>UNIQUE\<close>) or \<open>id\<close>
  (\<open>PRIMARY KEY\<close>) is already there. Columns the statement does not name take their
  defaults: \<open>status = 'downloaded'\<close>, \<open>in_drive = 0\<close>, \<open>drive_file_url = NULL\<close>.
\<close>

definition add_episode ::
  "pystr \<Rightarrow> pystr \<Rightarrow> pystr \<Rightarrow> pystr option \<Rightarrow> pystr option \<Rightarrow> pystr option \<Rightarrow>
   pystr option \<Rightarrow> int option \<Rightarrow> int option \<Rightarrow> 't \<Rightarrow> 't catalog \<Rightarrow>
   (db_error + int) \<times> 't catalog" where
  "add_episode name title url guid published fpath dfid fsize seq now db =
     (let pseq = (case seq of
                    Some s \<Rightarrow> s
                  | None \<Rightarrow> (case max_podcast_seq name db of Some m \<Rightarrow> m | None \<Rightarrow> 0) + 1);
          new_id = next_episode_id db;
          db1 = db\<lparr>next_episode_id := new_id + 1\<rparr>
      in if \<exists>r \<in> set (episodes db). episode_url r = url \<or> row_id r = new_id
         then (Inl UniqueViolation, db1)
         else (Inr new_id,
               db1\<lparr>episodes := episodes db @
                 [\<lparr>row_id = new_id, podcast_name = name, episode_title = title,
                   episode_url = url, episode_guid = guid, published_date = published,
                   downloaded_date = now, file_path = fpath, drive_file_id = dfid,
                   file_size = fsize, status = ustr ''downloaded'', in_drive = 0,
                   drive_file_url = None, podcast_seq = Some pseq\<rparr>]\<rparr>))"

text \<open>
  \<open>episode_exists\<close>: the \<open>if\<close>/\<open>elif\<close> chain tests the truthiness of each key; a row
  whose \<open>episode_guid\<close> is NULL matches no guid.
\<close>

definition episode_exists :: "pystr option \<Rightarrow> pystr option \<Rightarrow> 't catalog \<Rightarrow> bool" where
  "episode_exists url guid db =
     (if truthy url then \<exists>r \<in> set (episodes db). Some (episode_url r) = url
      else if truthy guid then \<exists>r \<in> set (episodes db). episode_guid r = guid
      else False)"

text \<open>
  A call of \<open>add_episode\<close> without the \<open>podcast_seq\<close> argument, and a run of such calls
  one after the other; a call that raises leaves no row.
\<close>

record 't add_request =
  rq_podcast_name :: pystr
  rq_title :: pystr
  rq_url :: pystr
  rq_guid :: "pystr option"
  rq_published :: "pystr option"
  rq_file_path :: "pystr option"
  rq_drive_file_id :: "pystr option"
  rq_file_size :: "int option"
  rq_now :: 't

definition add_episode_call :: "'t add_request \<Rightarrow> 't catalog \<Rightarrow> (db_error + int) \<times> 't catalog" where
  "add_episode_call rq db =
     add_episode (rq_podcast_name rq) (rq_title rq) (rq_url rq) (rq_guid rq) (rq_published rq)
       (rq_file_path rq) (rq_drive_file_id rq) (rq_file_size rq) None (rq_now rq) db"

definition sequential_inserts :: "'t add_request list \<Rightarrow> 't catalog \<Rightarrow> 't catalog" where
  "sequential_inserts rqs db = fold (\<lambda>rq d. snd (add_episode_call rq d)) rqs db"

definition empty_catalog :: "'t catalog" where
  "empty_catalog =
     \<lparr>episodes = [], next_episode_id = 1, podcasts = [], next_podcast_id = 1, run_history = []\<rparr>"


section \<open>String operations used by the downloader and the orchestrator\<close>

text \<open>\<open>s.replace(old, new)\<close> for one-character \<open>old\<close> and \<open>new\<close>.\<close>

definition py_replace :: "nat \<Rightarrow> nat \<Rightarrow> pystr \<Rightarrow> pystr" where
  "py_replace old new s = map (\<lambda>c. if c = old then new else c) s"

text \<open>
  The code points for which \<open>str.isspace\<close> holds; \<open>str.split()\<close> without an argument
  splits at runs of them.
\<close>

definition is_space :: "nat \<Rightarrow> bool" where
  "is_space c =
     (c \<in> set [9, 10, 11, 12, 13, 28, 29, 30, 31, 32, 133, 160, 5760,
                8192, 8193, 8194, 8195, 8196, 8197, 8198, 8199, 8200, 8201, 8202,
                8232, 8233, 8239, 8287, 12288])"

text \<open>Cut a string at every code point that satisfies \<open>P\<close>; empty pieces are kept.\<close>

fun split_where :: "(nat \<Rightarrow> bool) \<Rightarrow> pystr \<Rightarrow> pystr list" where
  "split_where P [] = [[]]"
| "split_where P (c # cs) =
     (if P c then [] # split_where P cs
      else (case split_where P cs of
              w # ws \<Rightarrow> (c # w) # ws
            | [] \<Rightarrow> [[c]]))"

text \<open>\<open>s.split()\<close>: the non-empty pieces between whitespace.\<close>

definition py_split_ws :: "pystr \<Rightarrow> pystr list" where
  "py_split_ws s = filter (\<lambda>w. w \<noteq> []) (split_where is_space s)"

text \<open>\<open>s.split(sep)\<close> for a one-character separator: empty pieces are kept.\<close>

definition py_split_on :: "nat \<Rightarrow> pystr \<Rightarrow> pystr list" where
  "py_split_on sep s = split_where (\<lambda>c. c = sep) s"

text \<open>\<open>sep.join(parts)\<close>\<close>

fun py_join :: "pystr \<Rightarrow> pystr list \<Rightarrow> pystr" where
  "py_join sep [] = []"
| "py_join sep [w] = w"
| "py_join sep (w # ws) = w @ sep @ py_join sep ws"

text \<open>\<open>s.strip(chars)\<close>\<close>

definition py_strip :: "pystr \<Rightarrow> pystr \<Rightarrow> pystr" where
  "py_strip chars s =
     rev (dropWhile (\<lambda>c. c \<in> set chars) (rev (dropWhile (\<lambda>c. c \<in> set chars) s)))"

text \<open>\<open>s[:n]\<close>: a negative \<open>n\<close> counts from the end.\<close>

definition py_slice_to :: "int \<Rightarrow> pystr \<Rightarrow> pystr" where
  "py_slice_to n s = (if 0 \<le> n then take (nat n) s else take (nat (int (length s) + n)) s)"

text \<open>
  \<open>list.sort(key=..., reverse=True)\<close>: descending, and stable (elements with equal keys
  keep their order).
\<close>

definition sort_desc :: "('a \<Rightarrow> 'k::linorder) \<Rightarrow> 'a list \<Rightarrow> 'a list" where
  "sort_desc key xs = rev (sort_key key (rev xs))"

section \<open>Library functions the code calls\<close>

text \<open>
  Functions of Python's libraries are parameters of the model:
  \<^item> \<open>parse_date\<close> is \<open>dateutil.parser.parse\<close>, with \<open>None\<close> where it raises. Its
    results, of type \<open>'d\<close>, are \<open>datetime\<close> values up to \<open>==\<close>;
  \<^item> \<open>aware\<close> says whether a \<open>datetime\<close> carries a UTC offset. Two values of the same
    kind are compared by the order of \<open>'d\<close>; comparing an offset-aware with a naive
    one raises \<open>TypeError\<close>;
  \<^item> \<open>url_suffix u\<close> is \<open>Path(unquote(urlparse(u).path)).suffix\<close>, and \<open>None\<close> when
    \<open>urlparse\<close> raises \<open>ValueError\<close>;
  \<^item> \<open>unicode_digit\<close> says for which code points from 128 on \<open>str.isdigit\<close> holds.
\<close>

record 'd pylib =
  parse_date :: "pystr \<Rightarrow> 'd option"
  aware :: "'d \<Rightarrow> bool"
  url_suffix :: "pystr \<Rightarrow> pystr option"
  unicode_digit :: "nat \<Rightarrow> bool"

text \<open>
  \<open>list.sort(key=..., reverse=True)\<close> on \<open>datetime\<close> keys. A sort of two or more
  elements compares every element with another one, and it cannot tell the order of two
  groups of elements without comparing across them: when the keys are of both kinds it
  meets an offset-aware and a naive one and raises \<open>TypeError\<close> (\<open>None\<close> here).
\<close>

definition comparable :: "'d pylib \<Rightarrow> 'd list \<Rightarrow> bool" where
  "comparable lib dates = (list_all (aware lib) dates \<or> list_all (\<lambda>d. \<not> aware lib d) dates)"

definition py_sort_desc :: "('d::linorder) pylib \<Rightarrow> ('a \<Rightarrow> 'd) \<Rightarrow> 'a list \<Rightarrow> 'a list option" where
  "py_sort_desc lib key xs =
     (if comparable lib (map key xs) then Some (sort_desc key xs) else None)"

section \<open>Episode dictionaries\<close>

text \<open>
  The dictionary that \<open>PodcastFeedParser\<close> builds for an episode, with the keys that
  main.py adds later. A field other than the title is \<open>None\<close> when the key is missing
  or its value is \<open>None\<close>, which the code does not tell apart (the parser always sets
  \<open>published\<close>). The parser always sets \<open>title\<close> and never sets \<open>guid\<close>.
\<close>

record 'd episode =
  ep_title :: "pystr dict_value"
  ep_published :: "pystr option"
  ep_parsed :: "'d option"
  ep_audio_url :: "pystr option"
  ep_guid :: "pystr option"
  ep_db_id :: "int option"
  ep_podcast_seq :: "int option"
  ep_upload_num :: "int option"

section \<open>File names (src/podcast_downloader.py)\<close>

text \<open>The characters \<open><>:"/\|?*\<close>, in the order of the source.\<close>

definition invalid_chars :: pystr where
  "invalid_chars = [60, 62, 58, 34, 47, 92, 124, 63, 42]"

definition sanitize_filename :: "pystr \<Rightarrow> pystr" where
  "sanitize_filename filename =
     (let f1 = fold (\<lambda>ch f. py_replace ch 95 f) invalid_chars filename;
          f2 = py_join [32] (py_split_ws f1);
          f3 = py_join [95] (filter (\<lambda>part. part \<noteq> []) (py_split_on 95 f2));
          f4 = py_strip [46, 32] f3
      in if f4 = [] then ustr ''untitled'' else f4)"

text \<open>The prefix \<open>_generate_filename\<close> chooses: the first of the three keys that is not \<open>None\<close>.\<close>

definition filename_prefix :: "'d episode \<Rightarrow> int option" where
  "filename_prefix episode =
     (if ep_podcast_seq episode \<noteq> None then ep_podcast_seq episode
      else if ep_upload_num episode \<noteq> None then ep_upload_num episode
      else if ep_db_id episode \<noteq> None then ep_db_id episode
      else None)"

text \<open>Lines 127 to 129: the extension for the suffix of the path.\<close>

definition file_extension :: "pystr \<Rightarrow> pystr" where
  "file_extension extension =
     (if extension = [] \<or> length extension > 5 then ustr ''.mp3'' else extension)"

definition build_filename :: "int option \<Rightarrow> pystr \<Rightarrow> pystr \<Rightarrow> pystr" where
  "build_filename prefix safe_title extension =
     (case prefix of
        Some p \<Rightarrow> py_str p @ [45] @ safe_title @ extension
      | None \<Rightarrow> safe_title @ extension)"

text \<open>
  \<open>_generate_filename\<close>. \<open>urlparse\<close> raises \<open>ValueError\<close> for a URL it rejects, and
  \<open>_sanitize_filename\<close> raises \<open>AttributeError\<close> for a title of \<open>None\<close> (\<open>None\<close> has no
  \<open>replace\<close>).
\<close>

definition generate_filename :: "'d pylib \<Rightarrow> 'd episode \<Rightarrow> pystr \<Rightarrow> py_error + pystr" where
  "generate_filename lib episode audio_url =
     (case url_suffix lib audio_url of
        None \<Rightarrow> Inl ValueError
      | Some suffix \<Rightarrow>
          (let extension = file_extension suffix
           in case dict_get (ep_title episode) (ustr ''Untitled Episode'') of
                None \<Rightarrow> Inl AttributeError
              | Some title \<Rightarrow>
                  (let safe_title = sanitize_filename title;
                       prefix = filename_prefix episode;
                       filename = build_filename prefix safe_title extension
                   in if length filename > 200
                      then (let max_title_length =
                                  200 - int (length extension)
                                    - (case prefix of
                                         Some p \<Rightarrow> int (length (py_str p)) + 1
                                       | None \<Rightarrow> 0)
                            in Inr (build_filename prefix
                                      (py_slice_to max_title_length safe_title) extension))
                      else Inr filename)))"

section \<open>Names of remote objects (main.py, lines 252 to 266)\<close>

text \<open>\<open>s.isdigit()\<close>: not empty, and every code point a digit.\<close>

definition is_digit :: "'d pylib \<Rightarrow> nat \<Rightarrow> bool" where
  "is_digit lib c = ((48 \<le> c \<and> c \<le> 57) \<or> (128 \<le> c \<and> unicode_digit lib c))"

definition py_isdigit :: "'d pylib \<Rightarrow> pystr \<Rightarrow> bool" where
  "py_isdigit lib s = (s \<noteq> [] \<and> list_all (is_digit lib) s)"

text \<open>
  \<open>rest\<close>: the file name without a leading run of digits and its hyphen.
  \<open>filename.split('-', 1)\<close> cuts at the first hyphen.
\<close>

definition strip_numeric_prefix :: "'d pylib \<Rightarrow> pystr \<Rightarrow> pystr" where
  "strip_numeric_prefix lib filename =
     (if 45 \<in> set filename
      then (let first = takeWhile (\<lambda>c. c \<noteq> 45) filename;
                rest_candidate = tl (dropWhile (\<lambda>c. c \<noteq> 45) filename)
            in if py_isdigit lib first then rest_candidate else filename)
      else filename)"

text \<open>\<open>a or b\<close> on optional integers: \<open>None\<close> and \<open>0\<close> are falsy.\<close>

fun int_truthy :: "int option \<Rightarrow> bool" where
  "int_truthy None = False"
| "int_truthy (Some n) = (n \<noteq> 0)"

definition int_or :: "int option \<Rightarrow> int option \<Rightarrow> int option" where
  "int_or a b = (if int_truthy a then a else b)"

definition prefix_for_drive :: "'d episode \<Rightarrow> int option" where
  "prefix_for_drive episode =
     int_or (ep_podcast_seq episode) (int_or (ep_upload_num episode) (ep_db_id episode))"

definition custom_drive_name :: "'d pylib \<Rightarrow> 'd episode \<Rightarrow> pystr \<Rightarrow> pystr" where
  "custom_drive_name lib episode filename =
     (case prefix_for_drive episode of
        Some p \<Rightarrow> py_str p @ [45] @ strip_numeric_prefix lib filename
      | None \<Rightarrow> filename)"

section \<open>Candidate selection (src/feed_parser.py, src/podcast_downloader.py)\<close>

text \<open>
  An \<open>item\<close> element of the feed: the text of its \<open>title\<close>, \<open>pubDate\<close>, \<open>published\<close>
  and \<open>date\<close> children (\<open>None\<close> when the child is missing) and the \<open>url\<close> attribute of
  each \<open>enclosure\<close> child. A fetch gives the items of the channel, a document without a
  channel, or fails (the request or the XML parser raises).
\<close>

record feed_item =
  it_title :: "pystr option"
  it_pubDate :: "pystr option"
  it_published :: "pystr option"
  it_date :: "pystr option"
  it_enclosure_urls :: "pystr option list"

datatype feed_doc = FetchFailed | NoChannel | Channel "feed_item list"

definition str_or :: "pystr option \<Rightarrow> pystr option \<Rightarrow> pystr option" where
  "str_or a b = (if truthy a then a else b)"

definition item_to_episode :: "'d pylib \<Rightarrow> feed_item \<Rightarrow> 'd episode" where
  "item_to_episode lib item =
     (let title = (case it_title item of Some t \<Rightarrow> t | None \<Rightarrow> ustr ''(no title)'');
          pubdate = str_or (it_pubDate item) (str_or (it_published item) (it_date item));
          parsed = (case pubdate of
                      Some p \<Rightarrow> if p \<noteq> [] then parse_date lib p else None
                    | None \<Rightarrow> None);
          audio_url = (case find truthy (it_enclosure_urls item) of
                         Some url \<Rightarrow> url
                       | None \<Rightarrow> None)
      in \<lparr>ep_title = Val title, ep_published = pubdate, ep_parsed = parsed,
          ep_audio_url = audio_url, ep_guid = None, ep_db_id = None,
          ep_podcast_seq = None, ep_upload_num = None\<rparr>)"

text \<open>
  \<open>PodcastFeedParser.get_latest_episodes\<close>; any exception gives the empty list, also
  the \<open>TypeError\<close> of the sort.
\<close>

definition feed_parser_get_latest_episodes ::
  "('d::linorder) pylib \<Rightarrow> feed_doc \<Rightarrow> nat \<Rightarrow> 'd episode list" where
  "feed_parser_get_latest_episodes lib doc max_episodes =
     (case doc of
        FetchFailed \<Rightarrow> []
      | NoChannel \<Rightarrow> []
      | Channel items \<Rightarrow>
          (let eps = map (item_to_episode lib) items;
               eps1 = filter (\<lambda>e. ep_parsed e \<noteq> None \<and> truthy (ep_audio_url e)) eps
           in case py_sort_desc lib (\<lambda>e. the (ep_parsed e)) eps1 of
                None \<Rightarrow> []
              | Some eps2 \<Rightarrow> take max_episodes eps2))"

text \<open>
  \<open>PodcastDownloader.get_latest_episodes\<close>: parses \<open>published\<close> again, keeps five. The
  \<open>TypeError\<close> of its sort is not caught here.
\<close>

definition downloader_get_latest_episodes ::
  "('d::linorder) pylib \<Rightarrow> 'd episode list \<Rightarrow> py_error + 'd episode list" where
  "downloader_get_latest_episodes lib eps =
     (let eps_with_dates =
            List.map_filter
              (\<lambda>ep. case (case ep_published ep of
                             Some date_str \<Rightarrow> if date_str \<noteq> [] then parse_date lib date_str else None
                           | None \<Rightarrow> None) of
                       Some parsed \<Rightarrow> Some (parsed, ep)
                     | None \<Rightarrow> None)
              eps
      in case py_sort_desc lib fst eps_with_dates of
           None \<Rightarrow> Inl TypeError
         | Some sorted_eps \<Rightarrow> Inr (map snd (take 5 sorted_eps)))"

text \<open>
  The candidates of one pass, oldest first: main.py, lines 192 to 204. The early return
  on an empty list is the first branch; when the second sort raises, the pass has no
  candidates.
\<close>

definition select_candidates :: "('d::linorder) pylib \<Rightarrow> feed_doc \<Rightarrow> 'd episode list" where
  "select_candidates lib doc =
     (let eps = feed_parser_get_latest_episodes lib doc 50
      in if eps = [] then []
         else (case downloader_get_latest_episodes lib eps of
                 Inl e \<Rightarrow> []
               | Inr latest \<Rightarrow> rev latest))"

section \<open>More catalog operations (src/database.py)\<close>

text \<open>\<open>SELECT * FROM episodes WHERE id = %s\<close>, first row.\<close>

definition get_episode_by_id :: "int \<Rightarrow> 't catalog \<Rightarrow> 't row option" where
  "get_episode_by_id episode_id db = find (\<lambda>r. row_id r = episode_id) (episodes db)"

definition update_episode_drive_info :: "int \<Rightarrow> pystr \<Rightarrow> pystr \<Rightarrow> 't catalog \<Rightarrow> 't catalog" where
  "update_episode_drive_info episode_id file_id file_url db =
     db\<lparr>episodes :=
          map (\<lambda>r. if row_id r = episode_id
                   then r\<lparr>drive_file_id := Some file_id, drive_file_url := Some file_url,
                          in_drive := 1\<rparr>
                   else r)
              (episodes db)\<rparr>"

definition mark_episode_in_drive :: "int \<Rightarrow> bool \<Rightarrow> 't catalog \<Rightarrow> 't catalog" where
  "mark_episode_in_drive episode_id flag db =
     db\<lparr>episodes :=
          map (\<lambda>r. if row_id r = episode_id then r\<lparr>in_drive := (if flag then 1 else 0)\<rparr> else r)
              (episodes db)\<rparr>"

text \<open>
  \<open>get_episodes_with_drive\<close>: the rows of the feed with a remote object id and
  \<open>in_drive = 1\<close>, \<open>ORDER BY downloaded_date DESC\<close>. The statement selects four
  columns; the model returns the whole rows, of which the caller reads \<open>id\<close> and
  \<open>drive_file_id\<close>. SQL leaves the order of rows with equal dates open; here they keep
  their table order.
\<close>

definition get_episodes_with_drive :: "pystr \<Rightarrow> ('t::linorder) catalog \<Rightarrow> 't row list" where
  "get_episodes_with_drive name db =
     sort_desc downloaded_date
       (filter (\<lambda>r. podcast_name r = name \<and> drive_file_id r \<noteq> None \<and> in_drive r = 1)
          (episodes db))"

definition get_podcast :: "pystr \<Rightarrow> 't catalog \<Rightarrow> 't podcast_row option" where
  "get_podcast name db = find (\<lambda>p. pod_name p = name) (podcasts db)"

text \<open>
  \<open>add_or_update_podcast\<close>: \<open>INSERT ... ON CONFLICT (name) DO UPDATE\<close>. The counter of
  \<open>id\<close> is drawn in both cases; a new row whose \<open>id\<close> is already there violates the
  primary key. \<open>enabled\<close> takes its default.
\<close>

definition add_or_update_podcast ::
  "pystr \<Rightarrow> pystr \<Rightarrow> pystr \<Rightarrow> pystr option \<Rightarrow> int option \<Rightarrow> 't \<Rightarrow> 't catalog \<Rightarrow>
   (db_error + int) \<times> 't catalog" where
  "add_or_update_podcast name rss_url folder_name folder_id keep_count now db =
     (let keep = (case keep_count of None \<Rightarrow> - 1 | Some k \<Rightarrow> k);
          new_id = next_podcast_id db;
          db1 = db\<lparr>next_podcast_id := new_id + 1\<rparr>
      in case find (\<lambda>p. pod_name p = name) (podcasts db) of
           Some old \<Rightarrow>
             (Inr (pod_id old),
              db1\<lparr>podcasts :=
                    map (\<lambda>p. if pod_name p = name
                             then p\<lparr>pod_rss_url := rss_url, pod_folder_name := folder_name,
                                    pod_last_checked := Some now,
                                    pod_drive_folder_id := folder_id,
                                    pod_keep_count := Some keep\<rparr>
                             else p)
                        (podcasts db)\<rparr>)
         | None \<Rightarrow>
             if \<exists>p \<in> set (podcasts db). pod_id p = new_id then (Inl UniqueViolation, db1)
             else (Inr new_id,
                   db1\<lparr>podcasts := podcasts db @
                     [\<lparr>pod_id = new_id, pod_name = name, pod_rss_url = rss_url,
                       pod_folder_name = folder_name, pod_last_checked = Some now,
                       pod_drive_folder_id = folder_id, pod_enabled = True,
                       pod_keep_count = Some keep\<rparr>]\<rparr>))"

section \<open>The world outside the process\<close>

text \<open>
  The clock, the feed server, the audio server and the object store are capabilities
  over a state \<open>'w\<close> of the outside world, which each call may change; the theorems
  hold for every behaviour of them.
  \<^item> \<open>fetch_feed\<close>: the request and the XML parser of \<open>PodcastFeedParser\<close>;
  \<^item> \<open>download_to_stream\<close>: \<open>PodcastDownloader._download_to_stream\<close>, the stream and
    its size (\<open>'b\<close>) or \<open>None\<close>;
  \<^item> \<open>upload_stream\<close>, \<open>setup_podcast_folders\<close>: the methods of \<open>GoogleDriveUploader\<close>,
    which catch their own exceptions (the MIME type, a function of the name, is left
    to the capability);
  \<^item> \<open>delete_file\<close>: returns \<open>True\<close>, returns \<open>False\<close> (an \<open>HttpError\<close>), or raises;
  \<^item> \<open>has_drive_uploader\<close>: whether \<open>self.drive_uploader\<close> was set at start-up.
\<close>

datatype delete_outcome = Deleted | DeleteFailed | DeleteRaised

record upload_result =
  up_id :: pystr
  up_url :: "pystr option"

record ('w, 't, 'b) world_ops =
  clock :: "'w \<Rightarrow> 't \<times> 'w"
  fetch_feed :: "pystr \<Rightarrow> 'w \<Rightarrow> feed_doc \<times> 'w"
  download_to_stream :: "pystr \<Rightarrow> 'w \<Rightarrow> 'b option \<times> 'w"
  upload_stream :: "'b \<Rightarrow> pystr \<Rightarrow> pystr \<Rightarrow> 'w \<Rightarrow> upload_result option \<times> 'w"
  delete_file :: "pystr \<Rightarrow> 'w \<Rightarrow> delete_outcome \<times> 'w"
  setup_podcast_folders :: "pystr list \<Rightarrow> 'w \<Rightarrow> (pystr \<rightharpoonup> pystr) \<times> 'w"
  has_drive_uploader :: bool

text \<open>One entry of the \<open>podcasts\<close> list of the configuration.\<close>

record feed_config =
  cfg_name :: pystr
  cfg_rss_url :: pystr
  cfg_folder_name :: pystr
  cfg_enabled :: bool
  cfg_keep_count :: "int option"

section \<open>One feed (main.py, \<open>process_single_podcast\<close>)\<close>

text \<open>
  Lines 206 to 234: every candidate the catalog does not know is inserted, and the
  dictionary takes \<open>db_id\<close> and the \<open>podcast_seq\<close> of the new row. An exception of
  \<open>add_episode\<close> leaves the loop. A title of \<open>None\<close> goes to the \<open>NOT NULL\<close> column
  \<open>episode_title\<close>: the \<open>INSERT\<close> draws the id counter and raises.
\<close>

fun insert_new_episodes ::
  "('w, 't, 'b) world_ops \<Rightarrow> pystr \<Rightarrow> 'd episode list \<Rightarrow> ('d episode \<times> int) list \<Rightarrow>
   't catalog \<times> 'w \<Rightarrow> (db_error + ('d episode \<times> int) list) \<times> ('t catalog \<times> 'w)" where
  "insert_new_episodes ops name [] episode_records s = (Inr episode_records, s)"
| "insert_new_episodes ops name (episode # rest) episode_records (db, w) =
     (if episode_exists (ep_audio_url episode) (ep_guid episode) db
      then insert_new_episodes ops name rest episode_records (db, w)
      else (case clock ops w of
              (now, w1) \<Rightarrow>
                (case dict_get (ep_title episode) [] of
                   None \<Rightarrow>
                     (Inl NotNullViolation, (db\<lparr>next_episode_id := next_episode_id db + 1\<rparr>, w1))
                 | Some title \<Rightarrow>
                     (case add_episode name title
                             (case ep_audio_url episode of Some u \<Rightarrow> u | None \<Rightarrow> [])
                             (case ep_guid episode of Some g \<Rightarrow> Some g | None \<Rightarrow> Some [])
                             (ep_published episode) None None None None now db of
                        (Inl e, db1) \<Rightarrow> (Inl e, (db1, w1))
                      | (Inr episode_id, db1) \<Rightarrow>
                          (let episode1 = episode\<lparr>ep_db_id := Some episode_id\<rparr>;
                               episode2 = (case get_episode_by_id episode_id db1 of
                                             Some ep_row \<Rightarrow>
                                               episode1\<lparr>ep_podcast_seq := podcast_seq ep_row\<rparr>
                                           | None \<Rightarrow> episode1)
                           in insert_new_episodes ops name rest
                                (episode_records @ [(episode2, episode_id)]) (db1, w1))))))"

text \<open>Lines 236 to 238: \<open>upload_num\<close> is the position, from 1.\<close>

definition assign_upload_num :: "('d episode \<times> int) list \<Rightarrow> ('d episode \<times> int) list" where
  "assign_upload_num episode_records =
     map (\<lambda>(idx, (episode, db_id)). (episode\<lparr>ep_upload_num := Some (int idx + 1)\<rparr>, db_id))
         (enumerate 0 episode_records)"

text \<open>
  \<open>PodcastDownloader.download_episode_stream\<close>: the stream and the file name, or \<open>None\<close>,
  also when \<open>_generate_filename\<close> raises, which is before the download.
\<close>

definition download_episode_stream ::
  "'d pylib \<Rightarrow> ('w, 't, 'b) world_ops \<Rightarrow> 'd episode \<Rightarrow> 'w \<Rightarrow> ('b \<times> pystr) option \<times> 'w" where
  "download_episode_stream lib ops episode w =
     (case ep_audio_url episode of
        None \<Rightarrow> (None, w)
      | Some audio_url \<Rightarrow>
          if audio_url = [] then (None, w)
          else (case generate_filename lib episode audio_url of
                  Inl e \<Rightarrow> (None, w)
                | Inr filename \<Rightarrow>
                    (case download_to_stream ops audio_url w of
                       (Some stream, w1) \<Rightarrow> (Some (stream, filename), w1)
                     | (None, w1) \<Rightarrow> (None, w1))))"

definition drive_view_url :: "pystr \<Rightarrow> pystr" where
  "drive_view_url file_id = ustr ''https://drive.google.com/file/d/'' @ file_id @ ustr ''/view''"

text \<open>Lines 240 to 293: download and upload, oldest first; the two counters.\<close>

fun transfer_episodes ::
  "'d pylib \<Rightarrow> ('w, 't, 'b) world_ops \<Rightarrow> pystr option \<Rightarrow> ('d episode \<times> int) list \<Rightarrow>
   int \<times> int \<Rightarrow> 't catalog \<times> 'w \<Rightarrow> (int \<times> int) \<times> ('t catalog \<times> 'w)" where
  "transfer_episodes lib ops drive_folder_id [] counts s = (counts, s)"
| "transfer_episodes lib ops drive_folder_id ((episode, episode_id) # rest)
     (downloaded_count, uploaded_count) (db, w) =
     (case download_episode_stream lib ops episode w of
        (None, w1) \<Rightarrow>
          transfer_episodes lib ops drive_folder_id rest (downloaded_count, uploaded_count) (db, w1)
      | (Some (stream, filename), w1) \<Rightarrow>
          (case (if has_drive_uploader ops \<and> truthy drive_folder_id then drive_folder_id else None) of
             Some folder \<Rightarrow>
               (case upload_stream ops stream (custom_drive_name lib episode filename) folder w1 of
                  (Some upload, w2) \<Rightarrow>
                    transfer_episodes lib ops drive_folder_id rest
                      (downloaded_count + 1, uploaded_count + 1)
                      (update_episode_drive_info episode_id (up_id upload)
                         (if truthy (up_url upload) then the (up_url upload)
                          else drive_view_url (up_id upload)) db, w2)
                | (None, w2) \<Rightarrow>
                    transfer_episodes lib ops drive_folder_id rest
                      (downloaded_count + 1, uploaded_count) (db, w2))
           | None \<Rightarrow>
               transfer_episodes lib ops drive_folder_id rest
                 (downloaded_count + 1, uploaded_count) (db, w1)))"

text \<open>
  Lines 326 to 341: the loop over the surplus episodes. An episode without a file id is
  passed over; a delete that returns \<open>False\<close> or raises is logged and the loop goes on.
\<close>

fun remove_old_episodes ::
  "('w, 't, 'b) world_ops \<Rightarrow> 't row list \<Rightarrow> 't catalog \<times> 'w \<Rightarrow> 't catalog \<times> 'w" where
  "remove_old_episodes ops [] s = s"
| "remove_old_episodes ops (ep # rest) (db, w) =
     (if truthy (drive_file_id ep)
      then (case delete_file ops (the (drive_file_id ep)) w of
              (Deleted, w1) \<Rightarrow>
                remove_old_episodes ops rest (mark_episode_in_drive (row_id ep) False db, w1)
            | (DeleteFailed, w1) \<Rightarrow> remove_old_episodes ops rest (db, w1)
            | (DeleteRaised, w1) \<Rightarrow> remove_old_episodes ops rest (db, w1))
      else remove_old_episodes ops rest (db, w))"

text \<open>
  Lines 299 to 315: the value of the configuration if there is one, else the value of
  the catalog. \<open>keep_count\<close> is an integer, so \<open>int(...)\<close> returns it.
\<close>

definition effective_keep :: "feed_config \<Rightarrow> 't catalog \<Rightarrow> int option" where
  "effective_keep cfg db =
     (case cfg_keep_count cfg of
        Some cfg_keep \<Rightarrow> Some cfg_keep
      | None \<Rightarrow> (case get_podcast (cfg_name cfg) db of
                   Some db_pod \<Rightarrow> pod_keep_count db_pod
                 | None \<Rightarrow> None))"

text \<open>Lines 297 to 346: the retention step.\<close>

definition enforce_retention ::
  "('w, 't::linorder, 'b) world_ops \<Rightarrow> feed_config \<Rightarrow> 't catalog \<times> 'w \<Rightarrow> 't catalog \<times> 'w" where
  "enforce_retention ops cfg s =
     (case effective_keep cfg (fst s) of
        Some keep \<Rightarrow>
          if keep > 0 \<and> has_drive_uploader ops
          then (let drive_episodes = get_episodes_with_drive (cfg_name cfg) (fst s);
                    episodes_to_remove = drop (nat keep) drive_episodes
                in remove_old_episodes ops episodes_to_remove s)
          else s
      | None \<Rightarrow> s)"

text \<open>
  \<open>process_single_podcast\<close>. \<open>add_or_update_podcast\<close> stands before the \<open>try\<close>: its
  exception leaves the function. Everything after it is inside the \<open>try\<close>: an exception
  of the downloader's sort or of \<open>add_episode\<close> ends the work on the feed, and the
  function returns its counters, which are still zero.
\<close>

definition process_single_podcast ::
  "('d::linorder) pylib \<Rightarrow> ('w, 't::linorder, 'b) world_ops \<Rightarrow> feed_config \<Rightarrow>
   (pystr \<rightharpoonup> pystr) \<Rightarrow> 't catalog \<times> 'w \<Rightarrow> (db_error + int \<times> int) \<times> ('t catalog \<times> 'w)" where
  "process_single_podcast lib ops cfg folder_mapping s =
     (let drive_folder_id = folder_mapping (cfg_folder_name cfg);
          keep_count = (case cfg_keep_count cfg of None \<Rightarrow> - 1 | Some k \<Rightarrow> k)
      in case clock ops (snd s) of
           (now, w1) \<Rightarrow>
             (case add_or_update_podcast (cfg_name cfg) (cfg_rss_url cfg) (cfg_folder_name cfg)
                     drive_folder_id (Some keep_count) now (fst s) of
                (Inl e, db1) \<Rightarrow> (Inl e, (db1, w1))
              | (Inr podcast_id, db1) \<Rightarrow>
                  (case fetch_feed ops (cfg_rss_url cfg) w1 of
                     (doc, w2) \<Rightarrow>
                       (let eps = feed_parser_get_latest_episodes lib doc 50
                        in if eps = [] then (Inr (0, 0), (db1, w2))
                           else (case downloader_get_latest_episodes lib eps of
                                   Inl e \<Rightarrow> (Inr (0, 0), (db1, w2))
                                 | Inr latest \<Rightarrow>
                                     (let episodes_reversed = rev latest
                                      in case insert_new_episodes ops (cfg_name cfg)
                                                episodes_reversed [] (db1, w2) of
                                           (Inl e, s3) \<Rightarrow> (Inr (0, 0), s3)
                                         | (Inr episode_records, s3) \<Rightarrow>
                                             (case transfer_episodes lib ops drive_folder_id
                                                     (assign_upload_num episode_records) (0, 0) s3 of
                                                (counts, s4) \<Rightarrow>
                                                  (Inr counts, enforce_retention ops cfg s4))))))))"

section \<open>One pass (main.py, \<open>process_podcasts\<close>)\<close>

text \<open>\<open>log_run_history\<close>: one more row of \<open>run_history\<close>.\<close>

definition log_run_history ::
  "('w, 't, 'b) world_ops \<Rightarrow> pystr \<Rightarrow> pystr \<Rightarrow> pystr \<Rightarrow> 't catalog \<times> 'w \<Rightarrow> 't catalog \<times> 'w" where
  "log_run_history ops run_type run_status message s =
     (case clock ops (snd s) of
        (now, w1) \<Rightarrow>
          ((fst s)\<lparr>run_history := run_history (fst s) @
             [\<lparr>hist_timestamp = now, hist_run_type = run_type, hist_status = run_status,
               hist_message = Some message\<rparr>]\<rparr>, w1))"

text \<open>\<open>Config.get_podcasts\<close>: the enabled entries.\<close>

definition get_podcasts :: "feed_config list \<Rightarrow> feed_config list" where
  "get_podcasts config = filter cfg_enabled config"



text \<open>Lines 139 to 142: the folders, when there is an uploader.\<close>

definition folders_for ::
  "('w, 't, 'b) world_ops \<Rightarrow> feed_config list \<Rightarrow> 't catalog \<times> 'w \<Rightarrow>
   (pystr \<rightharpoonup> pystr) \<times> ('t catalog \<times> 'w)" where
  "folders_for ops podcasts_cfg s =
     (if has_drive_uploader ops
      then (case setup_podcast_folders ops (map cfg_folder_name podcasts_cfg) (snd s) of
              (folder_mapping, w1) \<Rightarrow> (folder_mapping, (fst s, w1)))
      else (Map.empty, s))"



section \<open>Sample data\<close>

text \<open>Concrete rows, catalogs and requests, with natural numbers as timestamps.\<close>

definition sample_row ::
  "int \<Rightarrow> pystr \<Rightarrow> pystr \<Rightarrow> nat \<Rightarrow> pystr option \<Rightarrow> int \<Rightarrow> int option \<Rightarrow> nat row" where
  "sample_row i name url date file_id present pseq =
     \<lparr>row_id = i, podcast_name = name, episode_title = ustr ''title'', episode_url = url,
      episode_guid = Some [], published_date = None, downloaded_date = date, file_path = None,
      drive_file_id = file_id, file_size = None, status = ustr ''downloaded'', in_drive = present,
      drive_file_url = None, podcast_seq = pseq\<rparr>"

definition catalog_of :: "nat row list \<Rightarrow> nat catalog" where
  "catalog_of rows =
     \<lparr>episodes = rows, next_episode_id = int (length rows) + 1, podcasts = [],
      next_podcast_id = 1, run_history = []\<rparr>"

definition sample_request :: "pystr \<Rightarrow> pystr \<Rightarrow> nat \<Rightarrow> nat add_request" where
  "sample_request name url date =
     \<lparr>rq_podcast_name = name, rq_title = ustr ''title'', rq_url = url, rq_guid = Some [],
      rq_published = None, rq_file_path = None, rq_drive_file_id = None, rq_file_size = None,
      rq_now = date\<rparr>"

definition three_rows :: "nat catalog" where
  "three_rows = catalog_of
     [sample_row 1 (ustr ''A'') (ustr ''u1'') 10 None 0 (Some 1),
      sample_row 2 (ustr ''B'') (ustr ''u2'') 11 None 0 (Some 1),
      sample_row 3 (ustr ''A'') (ustr ''u3'') 12 None 0 (Some 2)]"

definition guid_rows :: "nat catalog" where
  "guid_rows = catalog_of
     [(sample_row 1 (ustr ''A'') (ustr ''u1'') 10 None 0 (Some 1))\<lparr>episode_guid := Some (ustr ''g1'')\<rparr>]"

text \<open>
  A library for the examples. A date is one digit, naive, or one digit and \<open>Z\<close>,
  offset-aware; the aware dates are the numbers from 10 on. A URL with only one of the
  brackets \<open>[\<close> and \<open>]\<close> is rejected, as \<open>urlparse\<close> rejects
  \<open>http://[abc/x.mp3\<close>; the suffix of another URL is the text from the last dot of its
  last path segment. The superscript digits are the digits beyond ASCII.
\<close>

definition sample_url_suffix :: "pystr \<Rightarrow> pystr option" where
  "sample_url_suffix u =
     (if (91 \<in> set u) \<noteq> (93 \<in> set u) then None
      else (let segment = rev (takeWhile (\<lambda>c. c \<noteq> 47) (rev u))
            in if 46 \<in> set segment
               then Some (46 # rev (takeWhile (\<lambda>c. c \<noteq> 46) (rev segment)))
               else Some []))"

definition sample_parse_date :: "pystr \<Rightarrow> nat option" where
  "sample_parse_date s =
     (case s of
        [c] \<Rightarrow> if 48 \<le> c \<and> c \<le> 57 then Some (c - 48) else None
      | [c, z] \<Rightarrow> if 48 \<le> c \<and> c \<le> 57 \<and> z = 90 then Some (10 + (c - 48)) else None
      | _ \<Rightarrow> None)"

definition sample_lib :: "nat pylib" where
  "sample_lib = \<lparr>parse_date = sample_parse_date, aware = (\<lambda>d. 10 \<le> d),
                 url_suffix = sample_url_suffix,
                 unicode_digit = (\<lambda>c. c \<in> {178, 179, 185})\<rparr>"

definition sample_episode :: "pystr \<Rightarrow> int option \<Rightarrow> nat episode" where
  "sample_episode t pseq =
     \<lparr>ep_title = Val t, ep_published = None, ep_parsed = None, ep_audio_url = None,
      ep_guid = None, ep_db_id = None, ep_podcast_seq = pseq, ep_upload_num = None\<rparr>"

text \<open>Twelve feed items, four of them with a date that parses and an audio URL.\<close>

definition sample_item :: "pystr option \<Rightarrow> pystr option \<Rightarrow> feed_item" where
  "sample_item date url =
     \<lparr>it_title = Some (ustr ''t''), it_pubDate = date, it_published = None, it_date = None,
      it_enclosure_urls = [url]\<rparr>"

definition twelve_items :: "feed_item list" where
  "twelve_items =
     [sample_item (Some (ustr ''3'')) (Some (ustr ''u3'')),
      sample_item None (Some (ustr ''a'')),
      sample_item (Some (ustr ''x'')) (Some (ustr ''b'')),
      sample_item (Some (ustr ''1'')) (Some (ustr ''u1'')),
      sample_item (Some (ustr ''5'')) None,
      sample_item (Some (ustr ''6'')) (Some []),
      sample_item (Some (ustr ''4'')) (Some (ustr ''u4'')),
      sample_item (Some []) (Some (ustr ''c'')),
      sample_item (Some (ustr ''77'')) (Some (ustr ''d'')),
      sample_item (Some (ustr ''2'')) (Some (ustr ''u2'')),
      sample_item None None,
      sample_item (Some (ustr ''y'')) (Some [])]"

text \<open>The same feed with the date of one valid item offset-aware.\<close>

definition mixed_items :: "feed_item list" where
  "mixed_items = twelve_items[6 := sample_item (Some (ustr ''4Z'')) (Some (ustr ''u4''))]"

text \<open>
  A world for the examples: the clock counts, every download and upload succeeds, and the
  deletes return the outcomes of a script, one after the other, and succeed when the
  script is used up. A feed \<open>A\<close> with five present episodes, stored out of order.
\<close>

record sample_world =
  w_time :: nat
  w_script :: "delete_outcome list"

definition sample_ops :: "feed_doc \<Rightarrow> (sample_world, nat, unit) world_ops" where
  "sample_ops doc =
     \<lparr>clock = (\<lambda>w. (w_time w, w\<lparr>w_time := Suc (w_time w)\<rparr>)),
      fetch_feed = (\<lambda>url w. (doc, w)),
      download_to_stream = (\<lambda>url w. (Some (), w)),
      upload_stream = (\<lambda>stream name folder w. (Some \<lparr>up_id = name, up_url = None\<rparr>, w)),
      delete_file = (\<lambda>file_id w. case w_script w of
                                    [] \<Rightarrow> (Deleted, w)
                                  | outcome # later \<Rightarrow> (outcome, w\<lparr>w_script := later\<rparr>)),
      setup_podcast_folders =
        (\<lambda>names w. ((\<lambda>n. if n \<in> set names then Some (ustr ''folder '' @ n) else None), w)),
      has_drive_uploader = True\<rparr>"

definition present_row :: "int \<Rightarrow> nat row" where
  "present_row i =
     sample_row i (ustr ''A'') (ustr ''u'' @ [48 + nat i]) (nat i) (Some (ustr ''f'' @ [48 + nat i])) 1 (Some i)"

definition five_present :: "nat catalog" where
  "five_present =
     catalog_of [present_row 3, present_row 1, present_row 5, present_row 2, present_row 4]"

definition sample_cfg :: "int option \<Rightarrow> feed_config" where
  "sample_cfg keep =
     \<lparr>cfg_name = ustr ''A'', cfg_rss_url = ustr ''https://example.com/feed'',
      cfg_folder_name = ustr ''A'', cfg_enabled = True, cfg_keep_count = keep\<rparr>"

definition world_with :: "delete_outcome list \<Rightarrow> sample_world" where
  "world_with script = \<lparr>w_time = 100, w_script = script\<rparr>"

text \<open>
  A feed configuration without a retention limit, a feed with one episode, and a catalog
  whose podcast table holds a row with id 1 while its id counter still stands at 1, so
  that the next insert into the table fails and the one after it succeeds.
\<close>

definition feed_cfg :: "pystr \<Rightarrow> feed_config" where
  "feed_cfg name =
     \<lparr>cfg_name = name, cfg_rss_url = ustr ''https://example.com/'' @ name,
      cfg_folder_name = name, cfg_enabled = True, cfg_keep_count = None\<rparr>"

definition one_item :: feed_doc where
  "one_item = Channel [sample_item (Some (ustr ''1'')) (Some (ustr ''u1''))]"


text \<open>One feed processed in the sample world, without remote folders.\<close>

definition sample_pass ::
  "feed_doc \<Rightarrow> feed_config \<Rightarrow> nat catalog \<times> sample_world \<Rightarrow>
   (db_error + int \<times> int) \<times> (nat catalog \<times> sample_world)" where
  "sample_pass doc cfg s = process_single_podcast sample_lib (sample_ops doc) cfg Map.empty s"

section \<open>Statements of the specification\<close>

text \<open>
  The number the specification gives a new episode: one more than the greatest number
  of the feed, and 1 when the feed has none.
\<close>

definition next_seq_spec :: "pystr \<Rightarrow> 't catalog \<Rightarrow> int" where
  "next_seq_spec name db =
     (if seqs_of name db = [] then 1 else Max (set (seqs_of name db)) + 1)"


text \<open>
  The condition the specification gives for \<open>episode_exists\<close>: some row matches a
  key that was supplied.
\<close>

definition matches_either_key :: "pystr option \<Rightarrow> pystr option \<Rightarrow> 't catalog \<Rightarrow> bool" where
  "matches_either_key url guid db =
     (\<exists>r \<in> set (episodes db).
        (url \<noteq> None \<and> Some (episode_url r) = url) \<or> (guid \<noteq> None \<and> episode_guid r = guid))"

text \<open>
  What \<open>_sanitize_filename\<close> has computed before it tests for the empty string.
\<close>

definition cleaned_title :: "pystr \<Rightarrow> pystr" where
  "cleaned_title filename =
     py_strip [46, 32]
       (py_join [95] (filter (\<lambda>part. part \<noteq> [])
          (py_split_on 95 (py_join [32] (py_split_ws
             (fold (\<lambda>ch f. py_replace ch 95 f) invalid_chars filename))))))"

text \<open>
  The naming step in the words of the specification: a leading run of digits followed by
  a hyphen is taken off; the prefix is \<open>podcast_seq\<close>, else \<open>upload_num\<close>, else the
  row id. The values the catalog and the orchestrator assign are positive.
\<close>

definition strip_leading_number_spec :: "'d pylib \<Rightarrow> pystr \<Rightarrow> pystr" where
  "strip_leading_number_spec lib filename =
     (let digits = takeWhile (is_digit lib) filename;
          rest = dropWhile (is_digit lib) filename
      in if digits \<noteq> [] \<and> rest \<noteq> [] \<and> hd rest = 45 then tl rest else filename)"

definition preferred_prefix_spec :: "'d episode \<Rightarrow> int option" where
  "preferred_prefix_spec e =
     (case ep_podcast_seq e of
        Some s \<Rightarrow> Some s
      | None \<Rightarrow> (case ep_upload_num e of Some u \<Rightarrow> Some u | None \<Rightarrow> ep_db_id e))"

definition positive_prefix_values :: "'d episode \<Rightarrow> bool" where
  "positive_prefix_values e =
     ((case ep_podcast_seq e of Some n \<Rightarrow> 0 < n | None \<Rightarrow> True) \<and>
      (case ep_upload_num e of Some n \<Rightarrow> 0 < n | None \<Rightarrow> True) \<and>
      (case ep_db_id e of Some n \<Rightarrow> 0 < n | None \<Rightarrow> True))"

text \<open>
  Candidate selection in the words of the specification. The publish text of a feed item
  is the first non-empty one of its \<open>pubDate\<close>, \<open>published\<close> and \<open>date\<close> texts, its
  publish date is that text parsed, and its audio reference is the first non-empty URL
  of its enclosures. A valid item has both a publish date and an audio reference. The
  descriptor of an item carries its title, publish text, publish date and audio
  reference; \<open>valid_episodes\<close> are the descriptors of the valid items of a feed, in the
  order of the feed.
\<close>

definition first_nonempty :: "pystr option list \<Rightarrow> pystr option" where
  "first_nonempty texts = (case filter truthy texts of [] \<Rightarrow> None | t # later \<Rightarrow> t)"

definition publish_text :: "feed_item \<Rightarrow> pystr option" where
  "publish_text item = first_nonempty [it_pubDate item, it_published item, it_date item]"

definition publish_date :: "'d pylib \<Rightarrow> feed_item \<Rightarrow> 'd option" where
  "publish_date lib item =
     (case publish_text item of None \<Rightarrow> None | Some t \<Rightarrow> parse_date lib t)"

definition audio_reference :: "feed_item \<Rightarrow> pystr option" where
  "audio_reference item = first_nonempty (it_enclosure_urls item)"

definition has_date_and_audio :: "'d pylib \<Rightarrow> feed_item \<Rightarrow> bool" where
  "has_date_and_audio lib item = (publish_date lib item \<noteq> None \<and> audio_reference item \<noteq> None)"

definition descriptor :: "'d pylib \<Rightarrow> feed_item \<Rightarrow> 'd episode" where
  "descriptor lib item =
     \<lparr>ep_title = Val (case it_title item of Some t \<Rightarrow> t | None \<Rightarrow> ustr ''(no title)''),
      ep_published = publish_text item, ep_parsed = publish_date lib item,
      ep_audio_url = audio_reference item, ep_guid = None, ep_db_id = None,
      ep_podcast_seq = None, ep_upload_num = None\<rparr>"

definition valid_episodes :: "'d pylib \<Rightarrow> feed_item list \<Rightarrow> 'd episode list" where
  "valid_episodes lib items = map (descriptor lib) (filter (has_date_and_audio lib) items)"

text \<open>The publish dates of the valid items of a feed are all offset-aware or all naive.\<close>

definition dates_of_one_kind :: "'d pylib \<Rightarrow> feed_item list \<Rightarrow> bool" where
  "dates_of_one_kind lib items =
     comparable lib (map (\<lambda>e. the (ep_parsed e)) (valid_episodes lib items))"

text \<open>
  For the retention loop: the outcome of the delete call for each surplus episode, in the
  order of the loop (\<open>None\<close> for an episode without a file id, for which there is no
  call); the ids of the episodes whose delete returned \<open>True\<close>; a table with the
  presence flag of the given ids cleared and nothing else changed; and the condition of
  \<open>get_episodes_with_drive\<close> on a row.
\<close>

fun deletion_outcomes ::
  "('w, 't, 'b) world_ops \<Rightarrow> 't row list \<Rightarrow> 'w \<Rightarrow> delete_outcome option list" where
  "deletion_outcomes ops [] w = []"
| "deletion_outcomes ops (ep # rest) w =
     (if truthy (drive_file_id ep)
      then (case delete_file ops (the (drive_file_id ep)) w of
              (outcome, w1) \<Rightarrow> Some outcome # deletion_outcomes ops rest w1)
      else None # deletion_outcomes ops rest w)"

definition deleted_ids :: "('w, 't, 'b) world_ops \<Rightarrow> 't row list \<Rightarrow> 'w \<Rightarrow> int list" where
  "deleted_ids ops eps w =
     map (\<lambda>(ep, outcome). row_id ep)
       (filter (\<lambda>(ep, outcome). outcome = Some Deleted) (zip eps (deletion_outcomes ops eps w)))"

definition clear_presence :: "int list \<Rightarrow> 't row list \<Rightarrow> 't row list" where
  "clear_presence ids rows = map (\<lambda>r. if row_id r \<in> set ids then r\<lparr>in_drive := 0\<rparr> else r) rows"

definition is_present :: "pystr \<Rightarrow> 't row \<Rightarrow> bool" where
  "is_present name r = (podcast_name r = name \<and> drive_file_id r \<noteq> None \<and> in_drive r = 1)"






text \<open>
  For repeated passes: the id counter of the episode table is ahead of every id in it, as
  it is when no row was ever written with an id of its own; the URLs the table holds;
  the rows with the presence flag left out of the comparison; and the conditions under
  which the retention step of a feed does nothing.
\<close>

definition serial_ahead :: "'t catalog \<Rightarrow> bool" where
  "serial_ahead db = (\<forall>r \<in> set (episodes db). row_id r < next_episode_id db)"

definition known_urls :: "'t catalog \<Rightarrow> pystr set" where
  "known_urls db = episode_url ` set (episodes db)"

definition without_presence :: "'t row list \<Rightarrow> 't row list" where
  "without_presence rows = map (\<lambda>r. r\<lparr>in_drive := 0\<rparr>) rows"

definition retention_off :: "('w, 't, 'b) world_ops \<Rightarrow> feed_config \<Rightarrow> bool" where
  "retention_off ops cfg =
     (\<not> has_drive_uploader ops \<or> (case cfg_keep_count cfg of None \<Rightarrow> True | Some k \<Rightarrow> k \<le> 0))"
section \<open>Evaluation of the sample data\<close>

lemmas sample_defs = sample_row_def catalog_of_def sample_request_def three_rows_def ustr_def

section \<open>Sequence numbers\<close>

lemma fold_max_eq_Max: "fold max xs (x::int) = Max (set (x # xs))"
proof (induction xs arbitrary: x)
  case Nil
  show ?case by simp
next
  case (Cons y ys)
  have "fold max (y # ys) x = Max (set (max y x # ys))"
    using Cons.IH [of "max y x"] by simp
  also have "\<dots> = Max (set (x # y # ys))"
    by (cases ys) (simp_all add: max.commute max.left_commute)
  finally show ?case .
qed

lemma sql_max_eq: "sql_max xs = (if xs = [] then None else Some (Max (set xs)))"
  by (cases xs) (simp_all add: fold_max_eq_Max del: Max_insert set_simps)

lemma map_filter_append:
  "List.map_filter f (xs @ ys) = List.map_filter f xs @ List.map_filter f ys"
  by (simp add: List.map_filter_def)

lemma next_seq_spec_greater: "s \<in> set (seqs_of name db) \<Longrightarrow> s < next_seq_spec name db"
proof -
  assume s: "s \<in> set (seqs_of name db)"
  then have "s \<le> Max (set (seqs_of name db))" by simp
  moreover from s have "seqs_of name db \<noteq> []" by auto
  ultimately show ?thesis by (simp add: next_seq_spec_def)
qed

lemma add_episode_Inr:
  assumes "add_episode name title url guid pub fp dfid fsize None now db = (Inr i, db')"
  shows "\<exists>r. db' = db\<lparr>next_episode_id := next_episode_id db + 1, episodes := episodes db @ [r]\<rparr>
           \<and> row_id r = i \<and> podcast_name r = name \<and> podcast_seq r = Some (next_seq_spec name db)
           \<and> episode_url r = url \<and> downloaded_date r = now \<and> in_drive r = 0
           \<and> drive_file_id r = dfid"
  using assms
  by (auto simp: add_episode_def Let_def max_podcast_seq_def sql_max_eq next_seq_spec_def
      split: if_splits)

lemma add_episode_Inl:
  assumes "add_episode name title url guid pub fp dfid fsize pseq now db = (Inl e, db')"
  shows "episodes db' = episodes db"
  using assms by (auto simp: add_episode_def Let_def split: if_splits)

lemma add_episode_succeeds:
  assumes "\<not> (\<exists>r \<in> set (episodes db). episode_url r = url \<or> row_id r = next_episode_id db)"
  shows "fst (add_episode name title url guid pub fp dfid fsize pseq now db) = Inr (next_episode_id db)"
  using assms by (simp add: add_episode_def Let_def)

lemma add_episode_call_seqs:
  "\<exists>new. seqs_of f (snd (add_episode_call rq db)) = seqs_of f db @ new \<and>
         (new = [] \<or> new = [next_seq_spec f db])"
proof (cases "add_episode_call rq db")
  case (Pair res db')
  show ?thesis
  proof (cases res)
    case (Inl e)
    with Pair have "episodes db' = episodes db"
      unfolding add_episode_call_def by (auto dest: add_episode_Inl)
    then have "seqs_of f db' = seqs_of f db" by (simp add: seqs_of_def)
    with Pair show ?thesis by simp
  next
    case (Inr i)
    with Pair obtain r where r:
      "db' = db\<lparr>next_episode_id := next_episode_id db + 1, episodes := episodes db @ [r]\<rparr>"
      "podcast_name r = rq_podcast_name rq"
      "podcast_seq r = Some (next_seq_spec (rq_podcast_name rq) db)"
      unfolding add_episode_call_def by (blast dest: add_episode_Inr)
    have "seqs_of f db' =
            seqs_of f db @ (if rq_podcast_name rq = f then [next_seq_spec f db] else [])"
      using r by (auto simp: seqs_of_def map_filter_append List.map_filter_def)
    with Pair show ?thesis by simp
  qed
qed

lemma sequential_inserts_seqs:
  "\<exists>new. seqs_of f (sequential_inserts rqs db) = seqs_of f db @ new \<and> sorted_wrt (<) new \<and>
         (\<forall>s \<in> set (seqs_of f db). \<forall>n \<in> set new. s < n)"
proof (induction rqs arbitrary: db)
  case Nil
  show ?case by (simp add: sequential_inserts_def)
next
  case (Cons rq rqs)
  let ?db1 = "snd (add_episode_call rq db)"
  obtain new1 where n1: "seqs_of f ?db1 = seqs_of f db @ new1"
    "new1 = [] \<or> new1 = [next_seq_spec f db]"
    using add_episode_call_seqs by blast
  obtain new2 where n2: "seqs_of f (sequential_inserts rqs ?db1) = seqs_of f ?db1 @ new2"
    "sorted_wrt (<) new2" "\<forall>s \<in> set (seqs_of f ?db1). \<forall>n \<in> set new2. s < n"
    using Cons.IH by blast
  have step: "sequential_inserts (rq # rqs) db = sequential_inserts rqs ?db1"
    by (simp add: sequential_inserts_def)
  have a: "seqs_of f (sequential_inserts (rq # rqs) db) = seqs_of f db @ (new1 @ new2)"
    using n1(1) n2(1) step by simp
  have b: "sorted_wrt (<) (new1 @ new2)"
    using n1 n2(2,3) by (auto simp: sorted_wrt_append)
  have c: "\<forall>s \<in> set (seqs_of f db). \<forall>n \<in> set (new1 @ new2). s < n"
    using n1 n2(3) next_seq_spec_greater [of _ f db] by auto
  from a b c show ?case by blast
qed

text \<open>
  C1. A call of \<open>add_episode\<close> without a sequence number that inserts a row gives the
  row the number \<open>next_seq_spec\<close>: one more than the greatest number of the feed, 1 when
  there is none, and greater than every number of the feed. The call inserts whenever
  the URL and the next id are new. After any run of such calls, the numbers of a feed
  are the old ones followed by the new ones; the new ones are strictly increasing,
  pairwise different and greater than all old ones.
\<close>

theorem add_episode_assigns_next_seq:
  "(add_episode name title url guid published fpath dfid fsize None now db = (Inr i, db') \<longrightarrow>
      (\<exists>r. episodes db' = episodes db @ [r] \<and> row_id r = i \<and> podcast_name r = name \<and>
           podcast_seq r = Some (next_seq_spec name db) \<and>
           (\<forall>s \<in> set (seqs_of name db). s < next_seq_spec name db)))
   \<and> (\<not> (\<exists>r \<in> set (episodes db). episode_url r = url \<or> row_id r = next_episode_id db) \<longrightarrow>
        fst (add_episode name title url guid published fpath dfid fsize None now db)
          = Inr (next_episode_id db))
   \<and> (\<exists>new. seqs_of f (sequential_inserts rqs db) = seqs_of f db @ new \<and>
        sorted_wrt (<) new \<and> distinct new \<and>
        (\<forall>s \<in> set (seqs_of f db). \<forall>n \<in> set new. s < n))"
proof (intro conjI impI)
  assume "add_episode name title url guid published fpath dfid fsize None now db = (Inr i, db')"
  from add_episode_Inr [OF this] obtain r where
    "db' = db\<lparr>next_episode_id := next_episode_id db + 1, episodes := episodes db @ [r]\<rparr>"
    "row_id r = i" "podcast_name r = name" "podcast_seq r = Some (next_seq_spec name db)"
    by blast
  then show "\<exists>r. episodes db' = episodes db @ [r] \<and> row_id r = i \<and> podcast_name r = name \<and>
           podcast_seq r = Some (next_seq_spec name db) \<and>
           (\<forall>s \<in> set (seqs_of name db). s < next_seq_spec name db)"
    using next_seq_spec_greater [of _ name db] by auto
next
  assume "\<not> (\<exists>r \<in> set (episodes db). episode_url r = url \<or> row_id r = next_episode_id db)"
  then show "fst (add_episode name title url guid published fpath dfid fsize None now db)
          = Inr (next_episode_id db)"
    by (rule add_episode_succeeds)
next
  obtain new where new: "seqs_of f (sequential_inserts rqs db) = seqs_of f db @ new"
    "sorted_wrt (<) new" "\<forall>s \<in> set (seqs_of f db). \<forall>n \<in> set new. s < n"
    using sequential_inserts_seqs by blast
  from new(2) have "distinct new"
    by (simp add: strict_sorted_iff)
  with new show "\<exists>new. seqs_of f (sequential_inserts rqs db) = seqs_of f db @ new \<and>
        sorted_wrt (<) new \<and> distinct new \<and>
        (\<forall>s \<in> set (seqs_of f db). \<forall>n \<in> set new. s < n)"
    by blast
qed

theorem add_episode_assigns_next_seq_witness:
  "fst (add_episode (ustr ''A'') (ustr ''t'') (ustr ''u4'') None None None None None None 13 three_rows) = Inr 4
   \<and> podcast_seq (last (episodes (snd (add_episode (ustr ''A'') (ustr ''t'') (ustr ''u4'') None None None None None None 13 three_rows)))) = Some 3
   \<and> seqs_of (ustr ''A'') three_rows = [1, 2]
   \<and> seqs_of (ustr ''A'')
        (sequential_inserts
           [sample_request (ustr ''A'') (ustr ''u4'') 13, sample_request (ustr ''A'') (ustr ''u4'') 14,
            sample_request (ustr ''B'') (ustr ''u5'') 15, sample_request (ustr ''A'') (ustr ''u6'') 16]
           three_rows) = [1, 2, 3, 4]"
proof -
  let ?call = "add_episode (ustr ''A'') (ustr ''t'') (ustr ''u4'') None None None None None None (13::nat) three_rows"
  let ?rqs = "[sample_request (ustr ''A'') (ustr ''u4'') 13, sample_request (ustr ''A'') (ustr ''u4'') 14,
            sample_request (ustr ''B'') (ustr ''u5'') 15, sample_request (ustr ''A'') (ustr ''u6'') 16]"
  have seqs: "seqs_of (ustr ''A'') three_rows = [1, 2]"
    by (simp add: sample_defs seqs_of_def List.map_filter_def)
  have fresh: "\<not> (\<exists>r \<in> set (episodes three_rows). episode_url r = ustr ''u4'' \<or> row_id r = next_episode_id three_rows)"
    by (simp add: sample_defs)
  have next_id: "next_episode_id three_rows = 4"
    by (simp add: sample_defs)
  have nxt: "next_seq_spec (ustr ''A'') three_rows = 3"
    by (simp add: next_seq_spec_def seqs)
  note inst = add_episode_assigns_next_seq [of "ustr ''A''" "ustr ''t''" "ustr ''u4''" None None None None None 13 three_rows 4 "snd ?call" "ustr ''A''" ?rqs]
  from inst fresh next_id have ok: "fst ?call = Inr 4" by simp
  then have "?call = (Inr 4, snd ?call)" by (metis prod.collapse)
  with inst nxt have "\<exists>r. episodes (snd ?call) = episodes three_rows @ [r] \<and> podcast_seq r = Some 3"
    by auto
  then have lst: "podcast_seq (last (episodes (snd ?call))) = Some 3" by auto
  have run: "seqs_of (ustr ''A'') (sequential_inserts ?rqs three_rows) = [1, 2, 3, 4]"
    by (simp add: sample_defs seqs_of_def List.map_filter_def sequential_inserts_def
        add_episode_call_def add_episode_def Let_def max_podcast_seq_def)
  from ok lst seqs run show ?thesis by simp
qed

section \<open>Looking an episode up\<close>

text \<open>
  C4. \<open>episode_exists\<close> returns true only if some row matches a supplied key. With a
  non-empty url it returns true exactly when some row has that \<open>episode_url\<close>, whatever
  the guid is; with no url (or an empty one) and a non-empty guid, exactly when some row
  has that \<open>episode_guid\<close>; with neither it returns false. So it agrees with
  \<open>matches_either_key\<close> whenever at most one key is supplied and no key is empty.
\<close>

theorem episode_exists_url_then_guid:
  "(episode_exists url guid db \<longrightarrow> matches_either_key url guid db)
   \<and> (truthy url \<longrightarrow>
        (episode_exists url guid db \<longleftrightarrow> (\<exists>r \<in> set (episodes db). Some (episode_url r) = url)))
   \<and> (\<not> truthy url \<and> truthy guid \<longrightarrow>
        (episode_exists url guid db \<longleftrightarrow> (\<exists>r \<in> set (episodes db). episode_guid r = guid)))
   \<and> (\<not> truthy url \<and> \<not> truthy guid \<longrightarrow> \<not> episode_exists url guid db)
   \<and> ((url = None \<or> guid = None) \<and> url \<noteq> Some [] \<and> guid \<noteq> Some [] \<longrightarrow>
        (episode_exists url guid db \<longleftrightarrow> matches_either_key url guid db))"
proof (intro conjI impI)
  assume "episode_exists url guid db"
  then show "matches_either_key url guid db"
    by (cases url; cases guid) (auto simp: episode_exists_def matches_either_key_def split: if_splits)
next
  assume "(url = None \<or> guid = None) \<and> url \<noteq> Some [] \<and> guid \<noteq> Some []"
  then show "episode_exists url guid db \<longleftrightarrow> matches_either_key url guid db"
    by (cases url; cases guid) (auto simp: episode_exists_def matches_either_key_def)
qed (simp_all add: episode_exists_def)

theorem episode_exists_url_then_guid_witness:
  "truthy (Some (ustr ''u1'')) \<and> episode_exists (Some (ustr ''u1'')) (Some (ustr ''g9'')) guid_rows
   \<and> \<not> truthy None \<and> truthy (Some (ustr ''g1'')) \<and> episode_exists None (Some (ustr ''g1'')) guid_rows
   \<and> matches_either_key None (Some (ustr ''g1'')) guid_rows
   \<and> \<not> episode_exists None None guid_rows
   \<and> \<not> episode_exists (Some (ustr ''u9'')) (Some (ustr ''g1'')) guid_rows"
proof -
  have u: "\<exists>r \<in> set (episodes guid_rows). Some (episode_url r) = Some (ustr ''u1'')"
    by (simp add: guid_rows_def sample_defs)
  have g: "\<exists>r \<in> set (episodes guid_rows). episode_guid r = Some (ustr ''g1'')"
    by (simp add: guid_rows_def sample_defs)
  have nu: "\<not> (\<exists>r \<in> set (episodes guid_rows). Some (episode_url r) = Some (ustr ''u9''))"
    by (simp add: guid_rows_def sample_defs)
  have t: "truthy (Some (ustr ''u1''))" "truthy (Some (ustr ''g1''))" "truthy (Some (ustr ''u9''))"
    by (simp_all add: ustr_def)
  from episode_exists_url_then_guid [of "Some (ustr ''u1'')" "Some (ustr ''g9'')" guid_rows] u t
  have a: "episode_exists (Some (ustr ''u1'')) (Some (ustr ''g9'')) guid_rows" by blast
  from episode_exists_url_then_guid [of None "Some (ustr ''g1'')" guid_rows] g t
  have b: "episode_exists None (Some (ustr ''g1'')) guid_rows"
    "matches_either_key None (Some (ustr ''g1'')) guid_rows" by auto
  from episode_exists_url_then_guid [of None None guid_rows]
  have c: "\<not> episode_exists None None guid_rows" by simp
  from episode_exists_url_then_guid [of "Some (ustr ''u9'')" "Some (ustr ''g1'')" guid_rows] nu t
  have d: "\<not> episode_exists (Some (ustr ''u9'')) (Some (ustr ''g1'')) guid_rows" by blast
  from a b c d t show ?thesis by simp
qed

text \<open>
  With both keys supplied the guid is not consulted: a row that matches the guid and not
  the url is not found.
\<close>

theorem episode_exists_either_key_counterexample:
  "\<not> (episode_exists (Some (ustr ''u9'')) (Some (ustr ''g1'')) guid_rows
        \<longleftrightarrow> matches_either_key (Some (ustr ''u9'')) (Some (ustr ''g1'')) guid_rows)"
  by (simp add: episode_exists_def matches_either_key_def guid_rows_def sample_defs)

section \<open>File names\<close>

lemma sanitize_filename_cleaned:
  "sanitize_filename t = (if cleaned_title t = [] then ustr ''untitled'' else cleaned_title t)"
  by (simp add: sanitize_filename_def cleaned_title_def Let_def)

lemma sanitize_filename_not_empty: "sanitize_filename t \<noteq> []"
  by (simp add: sanitize_filename_cleaned ustr_def)

lemma file_extension_cases:
  "file_extension suffix =
     (if suffix \<noteq> [] \<and> length suffix \<le> 5 then suffix else ustr ''.mp3'')"
  by (auto simp: file_extension_def)

lemma file_extension_bounds:
  "file_extension suffix \<noteq> [] \<and> length (file_extension suffix) \<le> 5"
  by (simp add: file_extension_cases ustr_def)

lemma dec_digits_not_empty: "dec_digits n \<noteq> []"
  by (subst dec_digits.simps) simp

lemma dec_digits_ascii: "c \<in> set (dec_digits n) \<Longrightarrow> 48 \<le> c \<and> c \<le> 57"
proof (induction n arbitrary: c rule: dec_digits.induct)
  case (1 n)
  show ?case
  proof (cases "n < 10")
    case True
    with "1.prems" show ?thesis by (subst (asm) dec_digits.simps) simp
  next
    case False
    from "1.prems" False have "c \<in> set (dec_digits (n div 10)) \<or> c = 48 + n mod 10"
      by (subst (asm) dec_digits.simps) auto
    then show ?thesis
    proof
      assume "c \<in> set (dec_digits (n div 10))"
      with "1.IH" False show ?thesis by simp
    next
      assume "c = 48 + n mod 10"
      then show ?thesis by simp
    qed
  qed
qed

lemma dec_digits_length: "n < 10 ^ k \<Longrightarrow> 0 < k \<Longrightarrow> length (dec_digits n) \<le> k"
proof (induction n arbitrary: k rule: dec_digits.induct)
  case (1 n)
  show ?case
  proof (cases "n < 10")
    case True
    then have "dec_digits n = [48 + n]" by (subst dec_digits.simps) simp
    with "1.prems" show ?thesis by simp
  next
    case False
    then have eq: "dec_digits n = dec_digits (n div 10) @ [48 + n mod 10]"
      by (subst dec_digits.simps) simp
    from False "1.prems" have k: "1 < k"
      by (cases "k = 1") auto
    then obtain j where j: "k = Suc j" "0 < j" by (cases k) auto
    from "1.prems"(1) j have "n div 10 < 10 ^ j"
      by (simp add: less_mult_imp_div_less mult.commute)
    with "1.IH" [OF False this] j have "length (dec_digits (n div 10)) \<le> j" by simp
    with eq j show ?thesis by simp
  qed
qed

lemma dec_digits_length_lower: "10 ^ k \<le> n \<Longrightarrow> k < length (dec_digits n)"
proof (induction n arbitrary: k rule: dec_digits.induct)
  case (1 n)
  show ?case
  proof (cases "n < 10")
    case True
    have "k = 0"
    proof (cases k)
      case (Suc j)
      have "(10::nat) \<le> 10 * 10 ^ j" by simp
      with "1.prems" Suc True show ?thesis by simp
    qed simp
    with dec_digits_not_empty [of n] show ?thesis by (cases "dec_digits n") auto
  next
    case False
    then have eq: "dec_digits n = dec_digits (n div 10) @ [48 + n mod 10]"
      by (subst dec_digits.simps) simp
    show ?thesis
    proof (cases k)
      case 0
      with eq show ?thesis by simp
    next
      case (Suc j)
      with "1.prems" have "10 ^ j \<le> n div 10" by simp
      with "1.IH" [OF False this] eq Suc show ?thesis by simp
    qed
  qed
qed

lemma py_str_int32_length:
  assumes "- (2 ^ 31) \<le> p" "p < 2 ^ 31"
  shows "length (py_str p) \<le> 11"
proof -
  have "nat \<bar>p\<bar> < 10 ^ 10" using assms by simp
  then have "length (dec_digits (nat \<bar>p\<bar>)) \<le> 10" by (rule dec_digits_length) simp
  then show ?thesis by (auto simp: py_str_def abs_if)
qed

lemma generate_filename_raises:
  "url_suffix lib url = None \<Longrightarrow> generate_filename lib e url = Inl ValueError"
  "url_suffix lib url \<noteq> None \<Longrightarrow> ep_title e = PyNone \<Longrightarrow>
     generate_filename lib e url = Inl AttributeError"
  by (auto simp: generate_filename_def Let_def split: option.splits)

lemma dict_get_title:
  "ep_title e \<noteq> PyNone \<Longrightarrow> \<exists>title. dict_get (ep_title e) fallback = Some title"
  by (cases "ep_title e") simp_all

lemma generate_filename_shape:
  assumes "url_suffix lib url = Some suffix" "ep_title e \<noteq> PyNone"
  shows "\<exists>t. generate_filename lib e url
               = Inr (build_filename (filename_prefix e) t (file_extension suffix))"
proof -
  from dict_get_title [OF assms(2)] obtain title
    where "dict_get (ep_title e) (ustr ''Untitled Episode'') = Some title" by blast
  with assms(1) show ?thesis by (auto simp: generate_filename_def Let_def)
qed

lemma generate_filename_name_shape:
  assumes "generate_filename lib e url = Inr name"
  shows "\<exists>t suffix. url_suffix lib url = Some suffix
           \<and> name = build_filename (filename_prefix e) t (file_extension suffix)"
  using assms by (auto simp: generate_filename_def Let_def split: option.splits if_splits)

lemma build_filename_length:
  "length (build_filename prefix t x) =
     (case prefix of Some p \<Rightarrow> length (py_str p) + 1 | None \<Rightarrow> 0) + length t + length x"
  by (simp add: build_filename_def split: option.splits)

lemma generate_filename_untruncated:
  assumes "url_suffix lib url = Some suffix"
    and "dict_get (ep_title e) (ustr ''Untitled Episode'') = Some title"
    and "length (build_filename (filename_prefix e) (sanitize_filename title)
                   (file_extension suffix)) \<le> 200"
  shows "generate_filename lib e url =
           Inr (build_filename (filename_prefix e) (sanitize_filename title) (file_extension suffix))"
  using assms by (simp add: generate_filename_def Let_def)

lemma generate_filename_length:
  assumes "generate_filename lib e url = Inr name"
    and "\<forall>p. filename_prefix e = Some p \<longrightarrow> length (py_str p) \<le> 194"
  shows "length name \<le> 200"
proof -
  from assms(1) obtain suffix title where sfx: "url_suffix lib url = Some suffix"
    and ttl: "dict_get (ep_title e) (ustr ''Untitled Episode'') = Some title"
    by (auto simp: generate_filename_def Let_def split: option.splits)
  let ?x = "file_extension suffix"
  let ?s = "sanitize_filename title"
  let ?k = "case filename_prefix e of Some p \<Rightarrow> length (py_str p) + 1 | None \<Rightarrow> 0"
  have x: "length ?x \<le> 5" using file_extension_bounds by blast
  have k: "?k \<le> 195" using assms(2) by (cases "filename_prefix e") auto
  show ?thesis
  proof (cases "length (build_filename (filename_prefix e) ?s ?x) > 200")
    case False
    with assms(1) sfx ttl have "name = build_filename (filename_prefix e) ?s ?x"
      by (simp add: generate_filename_def Let_def)
    with False show ?thesis by simp
  next
    case True
    let ?m = "200 - int (length ?x) - (case filename_prefix e of Some p \<Rightarrow> int (length (py_str p)) + 1 | None \<Rightarrow> 0)"
    have m_eq: "?m = 200 - int (length ?x) - int ?k" by (cases "filename_prefix e") auto
    with x k have m0: "0 \<le> ?m" by linarith
    have gen: "name = build_filename (filename_prefix e) (py_slice_to ?m ?s) ?x"
      using True assms(1) sfx ttl by (simp add: generate_filename_def Let_def)
    have "length (py_slice_to ?m ?s) \<le> nat ?m" using m0 by (simp add: py_slice_to_def)
    then have "int (length (py_slice_to ?m ?s)) \<le> ?m" using m0 by linarith
    then have "int ?k + int (length (py_slice_to ?m ?s)) + int (length ?x) \<le> 200"
      using m_eq by linarith
    then have "?k + length (py_slice_to ?m ?s) + length ?x \<le> 200" by linarith
    then show ?thesis unfolding gen build_filename_length .
  qed
qed

text \<open>
  C10. \<open>_generate_filename\<close> raises \<open>ValueError\<close> for an audio URL that \<open>urlparse\<close>
  rejects, and \<open>AttributeError\<close> for a title of \<open>None\<close>. For every other episode
  dictionary and audio URL it returns a non-empty name that ends with the extension,
  which is the suffix of the URL path when that suffix is non-empty and at most 5
  characters long and \<open>.mp3\<close> otherwise. The name has at most 200 characters when the
  decimal text of the prefix has at most 194 characters, as every 32-bit value of the
  catalog has; and for such a value a title of which sanitizing leaves nothing gives the
  title part \<open>untitled\<close>.
\<close>

theorem generate_filename_bounded:
  "(url_suffix lib url = None \<longrightarrow> generate_filename lib e url = Inl ValueError)
   \<and> (url_suffix lib url \<noteq> None \<and> ep_title e = PyNone \<longrightarrow>
        generate_filename lib e url = Inl AttributeError)
   \<and> (\<forall>suffix. url_suffix lib url = Some suffix \<and> ep_title e \<noteq> PyNone \<longrightarrow>
        (\<exists>name. generate_filename lib e url = Inr name \<and> name \<noteq> []
           \<and> (\<exists>stem. name = stem @ file_extension suffix)
           \<and> file_extension suffix =
                (if suffix \<noteq> [] \<and> length suffix \<le> 5 then suffix else ustr ''.mp3'')
           \<and> ((\<forall>p. filename_prefix e = Some p \<longrightarrow> length (py_str p) \<le> 194) \<longrightarrow>
                length name \<le> 200)
           \<and> ((\<forall>p. filename_prefix e = Some p \<longrightarrow> - (2 ^ 31) \<le> p \<and> p < 2 ^ 31) \<longrightarrow>
                length name \<le> 200
                \<and> (\<forall>t. ep_title e = Val t \<and> cleaned_title t = [] \<longrightarrow>
                      name = build_filename (filename_prefix e) (ustr ''untitled'')
                               (file_extension suffix)))))"
proof (intro conjI impI allI)
  assume "url_suffix lib url = None"
  then show "generate_filename lib e url = Inl ValueError" by (rule generate_filename_raises)
next
  assume "url_suffix lib url \<noteq> None \<and> ep_title e = PyNone"
  then show "generate_filename lib e url = Inl AttributeError"
    by (simp add: generate_filename_raises)
next
  fix suffix
  assume a: "url_suffix lib url = Some suffix \<and> ep_title e \<noteq> PyNone"
  then have sfx: "url_suffix lib url = Some suffix" and ttl: "ep_title e \<noteq> PyNone" by simp_all
  from generate_filename_shape [OF sfx ttl] obtain t
    where g: "generate_filename lib e url
                = Inr (build_filename (filename_prefix e) t (file_extension suffix))"
    by blast
  let ?name = "build_filename (filename_prefix e) t (file_extension suffix)"
  have ne: "?name \<noteq> []"
    using file_extension_bounds [of suffix] by (simp add: build_filename_def split: option.splits)
  have stem: "\<exists>stem. ?name = stem @ file_extension suffix"
    by (cases "filename_prefix e") (simp_all add: build_filename_def)
  have len: "length ?name \<le> 200"
    if "\<forall>p. filename_prefix e = Some p \<longrightarrow> length (py_str p) \<le> 194"
    using g that by (rule generate_filename_length)
  have b32: "length ?name \<le> 200
             \<and> (\<forall>t'. ep_title e = Val t' \<and> cleaned_title t' = [] \<longrightarrow>
                   ?name = build_filename (filename_prefix e) (ustr ''untitled'') (file_extension suffix))"
    if r: "\<forall>p. filename_prefix e = Some p \<longrightarrow> - (2 ^ 31) \<le> p \<and> p < 2 ^ 31"
  proof (intro conjI allI impI)
    from r have b: "\<forall>p. filename_prefix e = Some p \<longrightarrow> length (py_str p) \<le> 11"
      using py_str_int32_length by blast
    have "\<forall>p. filename_prefix e = Some p \<longrightarrow> length (py_str p) \<le> 194"
    proof (intro allI impI)
      fix p assume "filename_prefix e = Some p"
      with b have "length (py_str p) \<le> 11" by blast
      then show "length (py_str p) \<le> 194" by simp
    qed
    then show "length ?name \<le> 200" by (rule len)
    fix t'
    assume c: "ep_title e = Val t' \<and> cleaned_title t' = []"
    then have d: "dict_get (ep_title e) (ustr ''Untitled Episode'') = Some t'" by simp
    from c have s: "sanitize_filename t' = ustr ''untitled''" by (simp add: sanitize_filename_cleaned)
    have "length (build_filename (filename_prefix e) (ustr ''untitled'') (file_extension suffix)) \<le> 200"
      using b file_extension_bounds [of suffix]
      by (cases "filename_prefix e") (auto simp: build_filename_length ustr_def)
    then have "generate_filename lib e url =
                 Inr (build_filename (filename_prefix e) (ustr ''untitled'') (file_extension suffix))"
      using generate_filename_untruncated [OF sfx d] by (simp add: s)
    with g show "?name = build_filename (filename_prefix e) (ustr ''untitled'') (file_extension suffix)"
      by simp
  qed
  show "\<exists>name. generate_filename lib e url = Inr name \<and> name \<noteq> []
           \<and> (\<exists>stem. name = stem @ file_extension suffix)
           \<and> file_extension suffix =
                (if suffix \<noteq> [] \<and> length suffix \<le> 5 then suffix else ustr ''.mp3'')
           \<and> ((\<forall>p. filename_prefix e = Some p \<longrightarrow> length (py_str p) \<le> 194) \<longrightarrow>
                length name \<le> 200)
           \<and> ((\<forall>p. filename_prefix e = Some p \<longrightarrow> - (2 ^ 31) \<le> p \<and> p < 2 ^ 31) \<longrightarrow>
                length name \<le> 200
                \<and> (\<forall>t. ep_title e = Val t \<and> cleaned_title t = [] \<longrightarrow>
                      name = build_filename (filename_prefix e) (ustr ''untitled'')
                               (file_extension suffix)))"
  proof (rule exI [of _ ?name], intro conjI)
    show "generate_filename lib e url = Inr ?name" by (rule g)
    show "?name \<noteq> []" by (rule ne)
    show "\<exists>stem. ?name = stem @ file_extension suffix" by (rule stem)
    show "file_extension suffix =
            (if suffix \<noteq> [] \<and> length suffix \<le> 5 then suffix else ustr ''.mp3'')"
      by (rule file_extension_cases)
    show "(\<forall>p. filename_prefix e = Some p \<longrightarrow> length (py_str p) \<le> 194) \<longrightarrow>
            length ?name \<le> 200"
      using len by blast
    show "(\<forall>p. filename_prefix e = Some p \<longrightarrow> - (2 ^ 31) \<le> p \<and> p < 2 ^ 31) \<longrightarrow>
            length ?name \<le> 200
            \<and> (\<forall>t. ep_title e = Val t \<and> cleaned_title t = [] \<longrightarrow>
                  ?name = build_filename (filename_prefix e) (ustr ''untitled'')
                            (file_extension suffix))"
      using b32 by blast
  qed
qed

lemmas lib_defs = sample_lib_def sample_url_suffix_def sample_parse_date_def sample_episode_def

lemma py_str_small: "py_str 7 = [55]" "py_str 12 = [49, 50]"
  by (simp_all add: py_str_def dec_digits.simps)

lemma sanitize_my_show_title: "sanitize_filename (ustr ''My: Show/Title'') = ustr ''My_ Show_Title''"
  by (simp add: sanitize_filename_def ustr_def invalid_chars_def py_replace_def py_split_ws_def
      py_split_on_def py_strip_def is_space_def)

lemma sample_suffixes:
  "url_suffix sample_lib (ustr ''https://example.com/a.ogg'') = Some (ustr ''.ogg'')"
  "url_suffix sample_lib (ustr ''https://example.com/a.mp3'') = Some (ustr ''.mp3'')"
  "url_suffix sample_lib (ustr ''https://example.com/audio'') = Some []"
  "url_suffix sample_lib (ustr ''https://example.com/ep7.m4a'') = Some (ustr ''.m4a'')"
  "url_suffix sample_lib (ustr ''http://[abc/x.mp3'') = None"
  by (simp_all add: lib_defs ustr_def Let_def)

theorem generate_filename_bounded_witness:
  "url_suffix sample_lib (ustr ''https://example.com/a.ogg'') = Some (ustr ''.ogg'')
   \<and> ep_title (sample_episode (ustr '' ?. '') (Some 12)) \<noteq> PyNone
   \<and> filename_prefix (sample_episode (ustr '' ?. '') (Some 12)) = Some 12
   \<and> length (py_str 12) \<le> 194 \<and> - (2 ^ 31) \<le> (12::int) \<and> (12::int) < 2 ^ 31
   \<and> cleaned_title (ustr '' ?. '') = []
   \<and> generate_filename sample_lib (sample_episode (ustr '' ?. '') (Some 12))
        (ustr ''https://example.com/a.ogg'') = Inr (ustr ''12-untitled.ogg'')
   \<and> length (ustr ''12-untitled.ogg'') \<le> 200
   \<and> generate_filename sample_lib ((sample_episode (ustr ''t'') (Some 7))\<lparr>ep_title := PyNone\<rparr>)
        (ustr ''https://example.com/a.mp3'') = Inl AttributeError"
proof -
  let ?e = "sample_episode (ustr '' ?. '') (Some 12)"
  let ?u = "ustr ''https://example.com/a.ogg''"
  have p: "filename_prefix ?e = Some 12"
    by (simp add: filename_prefix_def sample_episode_def)
  have t: "ep_title ?e = Val (ustr '' ?. '')" by (simp add: sample_episode_def)
  then have tn: "ep_title ?e \<noteq> PyNone" by simp
  have c: "cleaned_title (ustr '' ?. '') = []"
    by (simp add: cleaned_title_def ustr_def invalid_chars_def py_replace_def py_split_ws_def
        py_split_on_def py_strip_def is_space_def)
  note sfx = sample_suffixes(1)
  have x: "file_extension (ustr ''.ogg'') = ustr ''.ogg''"
    by (simp add: file_extension_def ustr_def)
  have r: "- (2 ^ 31) \<le> (12::int)" "(12::int) < 2 ^ 31" by simp_all
  have r': "\<forall>q. filename_prefix ?e = Some q \<longrightarrow> - (2 ^ 31) \<le> q \<and> q < 2 ^ 31"
    using p by simp
  note inst = generate_filename_bounded [of sample_lib ?u ?e, THEN conjunct2, THEN conjunct2,
      THEN spec, THEN mp, OF conjI [OF sfx tn]]
  then obtain name where n: "generate_filename sample_lib ?e ?u = Inr name"
    and u: "(\<forall>p. filename_prefix ?e = Some p \<longrightarrow> - (2 ^ 31) \<le> p \<and> p < 2 ^ 31) \<longrightarrow>
                length name \<le> 200
                \<and> (\<forall>t. ep_title ?e = Val t \<and> cleaned_title t = [] \<longrightarrow>
                      name = build_filename (filename_prefix ?e) (ustr ''untitled'')
                               (file_extension (ustr ''.ogg'')))"
    by blast
  from u r' have l: "length name \<le> 200"
    and "\<forall>t. ep_title ?e = Val t \<and> cleaned_title t = [] \<longrightarrow>
           name = build_filename (filename_prefix ?e) (ustr ''untitled'') (file_extension (ustr ''.ogg''))"
    by blast+
  with t c have "name = build_filename (filename_prefix ?e) (ustr ''untitled'') (file_extension (ustr ''.ogg''))"
    by blast
  then have nm: "name = ustr ''12-untitled.ogg''"
    by (simp add: p x build_filename_def py_str_small) (simp add: ustr_def)
  have l12: "length (py_str 12) \<le> 194" by (simp add: py_str_small)
  from n nm have g: "generate_filename sample_lib ?e ?u = Inr (ustr ''12-untitled.ogg'')" by simp
  from l nm have l': "length (ustr ''12-untitled.ogg'') \<le> 200" by simp
  have "url_suffix sample_lib (ustr ''https://example.com/a.mp3'') \<noteq> None
        \<and> ep_title ((sample_episode (ustr ''t'') (Some 7))\<lparr>ep_title := PyNone\<rparr>) = PyNone"
    by (simp add: sample_suffixes)
  then have n: "generate_filename sample_lib ((sample_episode (ustr ''t'') (Some 7))\<lparr>ep_title := PyNone\<rparr>)
        (ustr ''https://example.com/a.mp3'') = Inl AttributeError"
    by (rule generate_filename_bounded [THEN conjunct2, THEN conjunct1, THEN mp])
  show ?thesis by (intro conjI sfx tn p l12 r c g l' n)
qed

text \<open>
  An enclosure URL with an opening bracket in its host and no closing one is rejected by
  \<open>urlparse\<close>: no name is returned, and \<open>download_episode_stream\<close> gives \<open>None\<close> without
  a download.
\<close>

theorem generate_filename_bounded_counterexample:
  "generate_filename sample_lib (sample_episode (ustr ''t'') (Some 7)) (ustr ''http://[abc/x.mp3'')
     = Inl ValueError
   \<and> download_episode_stream sample_lib (sample_ops NoChannel)
       ((sample_episode (ustr ''t'') (Some 7))\<lparr>ep_audio_url := Some (ustr ''http://[abc/x.mp3'')\<rparr>)
       (world_with [])
     = (None, world_with [])"
  by (simp add: generate_filename_def download_episode_stream_def sample_suffixes
      sample_episode_def Let_def)

text \<open>
  C8. For the title \<open>My: Show/Title\<close> and the prefix 7 the colon and the slash become
  underscores and the space after the colon stays: for every audio URL that \<open>urlparse\<close>
  accepts the name is \<open>7-My_ Show_Title\<close> followed by the extension, \<open>.mp3\<close> unless the
  URL gives a suffix of at most 5 characters; for any other URL no name is returned.
\<close>

theorem generate_filename_my_show_title:
  "ep_title e = Val (ustr ''My: Show/Title'') \<and> filename_prefix e = Some 7 \<longrightarrow>
     (url_suffix lib url = None \<longrightarrow> generate_filename lib e url = Inl ValueError)
     \<and> (\<forall>suffix. url_suffix lib url = Some suffix \<longrightarrow>
          generate_filename lib e url = Inr (ustr ''7-My_ Show_Title'' @ file_extension suffix)
          \<and> (suffix = [] \<or> length suffix > 5 \<longrightarrow>
               generate_filename lib e url = Inr (ustr ''7-My_ Show_Title.mp3''))
          \<and> (suffix \<noteq> [] \<and> length suffix \<le> 5 \<longrightarrow>
               generate_filename lib e url = Inr (ustr ''7-My_ Show_Title'' @ suffix)))"
proof (intro impI conjI allI)
  assume "url_suffix lib url = None"
  then show "generate_filename lib e url = Inl ValueError" by (rule generate_filename_raises)
next
  fix suffix
  assume a: "ep_title e = Val (ustr ''My: Show/Title'') \<and> filename_prefix e = Some 7"
    and sfx: "url_suffix lib url = Some suffix"
  from a have d: "dict_get (ep_title e) (ustr ''Untitled Episode'') = Some (ustr ''My: Show/Title'')"
    by simp
  have b: "build_filename (Some 7) (ustr ''My_ Show_Title'') (file_extension suffix)
             = ustr ''7-My_ Show_Title'' @ file_extension suffix"
    by (simp add: build_filename_def py_str_small ustr_def)
  have "length (build_filename (Some 7) (ustr ''My_ Show_Title'') (file_extension suffix)) \<le> 200"
    using file_extension_bounds [of suffix] by (simp add: b) (simp add: ustr_def)
  with a have g: "generate_filename lib e url = Inr (ustr ''7-My_ Show_Title'' @ file_extension suffix)"
    using generate_filename_untruncated [OF sfx d] by (simp add: sanitize_my_show_title b)
  show "generate_filename lib e url = Inr (ustr ''7-My_ Show_Title'' @ file_extension suffix)"
    by (rule g)
  show "generate_filename lib e url = Inr (ustr ''7-My_ Show_Title.mp3'')"
    if "suffix = [] \<or> length suffix > 5"
    unfolding g using that by (auto simp: file_extension_cases ustr_def)
  show "generate_filename lib e url = Inr (ustr ''7-My_ Show_Title'' @ suffix)"
    if "suffix \<noteq> [] \<and> length suffix \<le> 5"
    unfolding g using that by (auto simp: file_extension_cases)
qed

theorem generate_filename_my_show_title_witness:
  "ep_title (sample_episode (ustr ''My: Show/Title'') (Some 7)) = Val (ustr ''My: Show/Title'')
   \<and> filename_prefix (sample_episode (ustr ''My: Show/Title'') (Some 7)) = Some 7
   \<and> url_suffix sample_lib (ustr ''https://example.com/audio'') = Some []
   \<and> generate_filename sample_lib (sample_episode (ustr ''My: Show/Title'') (Some 7))
        (ustr ''https://example.com/audio'') = Inr (ustr ''7-My_ Show_Title.mp3'')
   \<and> generate_filename sample_lib (sample_episode (ustr ''My: Show/Title'') (Some 7))
        (ustr ''https://example.com/ep7.m4a'') = Inr (ustr ''7-My_ Show_Title.m4a'')"
proof -
  let ?e = "sample_episode (ustr ''My: Show/Title'') (Some 7)"
  have t: "ep_title ?e = Val (ustr ''My: Show/Title'')" by (simp add: sample_episode_def)
  have p: "filename_prefix ?e = Some 7" by (simp add: filename_prefix_def sample_episode_def)
  note s1 = sample_suffixes(3)
  note s2 = sample_suffixes(4)
  note i1 = generate_filename_my_show_title [of ?e sample_lib "ustr ''https://example.com/audio''",
      THEN mp, OF conjI [OF t p], THEN conjunct2, THEN spec, THEN mp, OF s1]
  have a: "generate_filename sample_lib ?e (ustr ''https://example.com/audio'') = Inr (ustr ''7-My_ Show_Title.mp3'')"
    using i1 [THEN conjunct2, THEN conjunct1] by simp
  note i2 = generate_filename_my_show_title [of ?e sample_lib "ustr ''https://example.com/ep7.m4a''",
      THEN mp, OF conjI [OF t p], THEN conjunct2, THEN spec, THEN mp, OF s2]
  have "ustr ''.m4a'' \<noteq> [] \<and> length (ustr ''.m4a'') \<le> 5" by (simp add: ustr_def)
  with i2 [THEN conjunct2, THEN conjunct2]
  have "generate_filename sample_lib ?e (ustr ''https://example.com/ep7.m4a'')
          = Inr (ustr ''7-My_ Show_Title'' @ ustr ''.m4a'')"
    by blast
  then have b: "generate_filename sample_lib ?e (ustr ''https://example.com/ep7.m4a'') = Inr (ustr ''7-My_ Show_Title.m4a'')"
    by (simp add: ustr_def)
  show ?thesis by (intro conjI t p s1 a b)
qed

text \<open>The name is not \<open>7-My_Show_Title.mp3\<close>.\<close>

theorem generate_filename_my_show_title_counterexample:
  "generate_filename sample_lib (sample_episode (ustr ''My: Show/Title'') (Some 7))
     (ustr ''https://example.com/audio'') \<noteq> Inr (ustr ''7-My_Show_Title.mp3'')"
proof -
  have "generate_filename sample_lib (sample_episode (ustr ''My: Show/Title'') (Some 7))
     (ustr ''https://example.com/audio'') = Inr (ustr ''7-My_ Show_Title.mp3'')"
    by (simp add: generate_filename_def sample_suffixes file_extension_def filename_prefix_def
        build_filename_def sanitize_my_show_title py_str_small sample_episode_def Let_def)
       (simp add: ustr_def)
  then show ?thesis by (simp add: ustr_def)
qed

section \<open>Names of remote objects\<close>

lemma hyphen_not_digit: "\<not> is_digit lib 45"
  by (simp add: is_digit_def)

lemma strip_numeric_prefix_split:
  assumes "45 \<notin> set a"
  shows "strip_numeric_prefix lib (a @ 45 # b) = (if py_isdigit lib a then b else a @ 45 # b)"
proof -
  have "takeWhile (\<lambda>c. c \<noteq> 45) (a @ 45 # b) = a"
    using assms by (induction a) auto
  moreover have "dropWhile (\<lambda>c. c \<noteq> 45) (a @ 45 # b) = 45 # b"
    using assms by (induction a) auto
  ultimately show ?thesis by (simp add: strip_numeric_prefix_def Let_def)
qed

lemma strip_leading_number_spec_split:
  assumes "45 \<notin> set a"
  shows "strip_leading_number_spec lib (a @ 45 # b) = (if py_isdigit lib a then b else a @ 45 # b)"
proof (cases "py_isdigit lib a")
  case True
  then have all: "\<forall>c \<in> set a. is_digit lib c" and ne: "a \<noteq> []"
    by (simp_all add: py_isdigit_def list_all_iff)
  have "takeWhile (is_digit lib) (a @ 45 # b) = a"
    using all by (induction a) (auto simp: hyphen_not_digit)
  moreover have "dropWhile (is_digit lib) (a @ 45 # b) = 45 # b"
    using all by (induction a) (auto simp: hyphen_not_digit)
  ultimately show ?thesis using True ne by (simp add: strip_leading_number_spec_def Let_def)
next
  case False
  show ?thesis
  proof (cases "a = []")
    case True
    then show ?thesis using False
      by (simp add: strip_leading_number_spec_def Let_def hyphen_not_digit)
  next
    case ne: False
    with False obtain c where c: "c \<in> set a" "\<not> is_digit lib c"
      by (auto simp: py_isdigit_def list_all_iff)
    then have tw: "takeWhile (is_digit lib) (a @ 45 # b) = takeWhile (is_digit lib) a"
      by simp
    from c have dw: "dropWhile (is_digit lib) (a @ 45 # b) = dropWhile (is_digit lib) a @ 45 # b"
      by simp
    from c have dne: "dropWhile (is_digit lib) a \<noteq> []" by auto
    then have "hd (dropWhile (is_digit lib) a) \<in> set a"
      by (metis hd_in_set set_dropWhileD)
    with assms have "hd (dropWhile (is_digit lib) a) \<noteq> 45" by auto
    with dne have "hd (dropWhile (is_digit lib) a @ 45 # b) \<noteq> 45" by simp
    then show ?thesis using False
      by (simp add: strip_leading_number_spec_def Let_def tw dw)
  qed
qed

lemma split_at_first_hyphen:
  assumes "45 \<in> set f"
  shows "\<exists>a b. f = a @ 45 # b \<and> 45 \<notin> set a"
  using assms by (meson split_list_first)

lemma strip_numeric_prefix_spec: "strip_numeric_prefix lib f = strip_leading_number_spec lib f"
proof (cases "45 \<in> set f")
  case True
  then obtain a b where "f = a @ 45 # b" "45 \<notin> set a" using split_at_first_hyphen by blast
  then show ?thesis by (simp add: strip_numeric_prefix_split strip_leading_number_spec_split)
next
  case False
  have "set (dropWhile (is_digit lib) f) \<subseteq> set f" by (auto dest: set_dropWhileD)
  with False have "dropWhile (is_digit lib) f = [] \<or> hd (dropWhile (is_digit lib) f) \<noteq> 45"
    by (metis hd_in_set subsetD)
  with False show ?thesis
    by (auto simp: strip_numeric_prefix_def strip_leading_number_spec_def Let_def)
qed

lemma py_str_nonneg:
  assumes "0 \<le> p"
  shows "py_isdigit lib (py_str p)" "45 \<notin> set (py_str p)"
proof -
  from assms have eq: "py_str p = dec_digits (nat p)" by (simp add: py_str_def)
  have "\<forall>c \<in> set (dec_digits (nat p)). 48 \<le> c \<and> c \<le> 57" using dec_digits_ascii by blast
  then show "py_isdigit lib (py_str p)" "45 \<notin> set (py_str p)"
    unfolding eq by (auto simp: py_isdigit_def list_all_iff is_digit_def dec_digits_not_empty)
qed

lemma strip_build_filename:
  assumes "0 \<le> q"
  shows "strip_numeric_prefix lib (build_filename (Some q) t x) = t @ x"
  using py_str_nonneg(1) [OF assms, of lib] py_str_nonneg(2) [OF assms]
  by (simp add: build_filename_def strip_numeric_prefix_split)

lemma strip_prefixed:
  assumes "0 \<le> p"
  shows "strip_numeric_prefix lib (py_str p @ [45] @ f) = f"
  using py_str_nonneg(1) [OF assms, of lib] py_str_nonneg(2) [OF assms]
  by (simp add: strip_numeric_prefix_split)

lemma positive_prefix_agree:
  assumes "positive_prefix_values e"
  shows "prefix_for_drive e = preferred_prefix_spec e" "filename_prefix e = preferred_prefix_spec e"
    "\<forall>p. preferred_prefix_spec e = Some p \<longrightarrow> 0 < p"
  using assms
  by (auto simp: positive_prefix_values_def prefix_for_drive_def preferred_prefix_spec_def
      filename_prefix_def int_or_def split: option.splits)

text \<open>
  C9. For an episode whose prefix values are positive, the naming step chooses
  \<open>podcast_seq\<close>, else \<open>upload_num\<close>, else the row id; it takes a leading run of digits
  with its hyphen off the file name and puts the chosen prefix in front; a name built
  with any non-negative prefix gets the chosen prefix in its place, so a name that
  \<open>_generate_filename\<close> returns comes back unchanged, with one prefix; and the step
  applied twice gives the same name as applied once.
\<close>

theorem custom_drive_name_single_prefix:
  "positive_prefix_values e \<longrightarrow>
     prefix_for_drive e = preferred_prefix_spec e
     \<and> (\<forall>p. prefix_for_drive e = Some p \<longrightarrow>
          custom_drive_name lib e filename = py_str p @ [45] @ strip_leading_number_spec lib filename)
     \<and> (\<forall>p q. prefix_for_drive e = Some p \<and> 0 \<le> q \<longrightarrow>
          custom_drive_name lib e (build_filename (Some q) t x) = build_filename (Some p) t x)
     \<and> (\<forall>name. generate_filename lib e url = Inr name \<longrightarrow> custom_drive_name lib e name = name)
     \<and> custom_drive_name lib e (custom_drive_name lib e filename) = custom_drive_name lib e filename"
proof (intro impI conjI allI)
  assume pos: "positive_prefix_values e"
  note agree = positive_prefix_agree [OF pos]
  show "prefix_for_drive e = preferred_prefix_spec e" by (rule agree)
  show "custom_drive_name lib e name = name" if gen: "generate_filename lib e url = Inr name" for name
  proof (cases "prefix_for_drive e")
    case None
    then show ?thesis by (simp add: custom_drive_name_def)
  next
    case (Some p)
    with agree have fp: "filename_prefix e = Some p" and "0 < p" by metis+
    then have p: "0 \<le> p" by simp
    obtain s x where "name = build_filename (Some p) s x"
      using generate_filename_name_shape [OF gen] fp by auto
    then show ?thesis using Some p
      by (simp add: custom_drive_name_def strip_build_filename) (simp add: build_filename_def)
  qed
  show "custom_drive_name lib e (custom_drive_name lib e filename) = custom_drive_name lib e filename"
  proof (cases "prefix_for_drive e")
    case None
    then show ?thesis by (simp add: custom_drive_name_def)
  next
    case (Some p)
    with agree have "0 < p" by metis
    then have "0 \<le> p" by simp
    then show ?thesis using Some strip_prefixed [of p lib]
      by (simp add: custom_drive_name_def)
  qed
next
  fix p
  assume "prefix_for_drive e = Some p"
  then show "custom_drive_name lib e filename = py_str p @ [45] @ strip_leading_number_spec lib filename"
    by (simp add: custom_drive_name_def strip_numeric_prefix_spec)
next
  fix p q :: int
  assume "prefix_for_drive e = Some p \<and> 0 \<le> q"
  then show "custom_drive_name lib e (build_filename (Some q) t x) = build_filename (Some p) t x"
    by (simp add: custom_drive_name_def strip_build_filename) (simp add: build_filename_def)
qed

lemma sample_name_my_show_title:
  "generate_filename sample_lib
     ((sample_episode (ustr ''My: Show/Title'') (Some 7))\<lparr>ep_db_id := i, ep_upload_num := n\<rparr>)
     (ustr ''https://example.com/audio'') = Inr (ustr ''7-My_ Show_Title.mp3'')"
  by (simp add: generate_filename_def sample_suffixes file_extension_def filename_prefix_def
      build_filename_def sanitize_my_show_title py_str_small sample_episode_def Let_def)
     (simp add: ustr_def)

theorem custom_drive_name_single_prefix_witness:
  "positive_prefix_values
     ((sample_episode (ustr ''My: Show/Title'') (Some 7))\<lparr>ep_db_id := Some 42, ep_upload_num := Some 1\<rparr>)
   \<and> prefix_for_drive
       ((sample_episode (ustr ''My: Show/Title'') (Some 7))\<lparr>ep_db_id := Some 42, ep_upload_num := Some 1\<rparr>)
       = Some 7
   \<and> custom_drive_name sample_lib
       ((sample_episode (ustr ''My: Show/Title'') (Some 7))\<lparr>ep_db_id := Some 42, ep_upload_num := Some 1\<rparr>)
       (ustr ''3-old.mp3'') = ustr ''7-old.mp3''
   \<and> custom_drive_name sample_lib
       ((sample_episode (ustr ''My: Show/Title'') (Some 7))\<lparr>ep_db_id := Some 42, ep_upload_num := Some 1\<rparr>)
       (ustr ''7-My_ Show_Title.mp3'') = ustr ''7-My_ Show_Title.mp3''
   \<and> generate_filename sample_lib
       ((sample_episode (ustr ''My: Show/Title'') (Some 7))\<lparr>ep_db_id := Some 42, ep_upload_num := Some 1\<rparr>)
       (ustr ''https://example.com/audio'')
       = Inr (ustr ''7-My_ Show_Title.mp3'')"
proof -
  let ?e = "(sample_episode (ustr ''My: Show/Title'') (Some 7))\<lparr>ep_db_id := Some 42, ep_upload_num := Some 1\<rparr>"
  let ?u = "ustr ''https://example.com/audio''"
  have pos: "positive_prefix_values ?e"
    by (simp add: positive_prefix_values_def sample_episode_def)
  have pre: "preferred_prefix_spec ?e = Some 7"
    by (simp add: preferred_prefix_spec_def sample_episode_def)
  have strip: "strip_leading_number_spec sample_lib (ustr ''3-old.mp3'') = ustr ''old.mp3''"
    by (simp add: strip_leading_number_spec_def is_digit_def sample_lib_def ustr_def Let_def)
  have b: "build_filename (Some 7) (ustr ''My_ Show_Title'') (ustr ''.mp3'') = ustr ''7-My_ Show_Title.mp3''"
    by (simp add: build_filename_def py_str_small ustr_def)
  have gen: "generate_filename sample_lib ?e ?u = Inr (ustr ''7-My_ Show_Title.mp3'')"
    by (rule sample_name_my_show_title)
  note inst = custom_drive_name_single_prefix
    [of ?e sample_lib "ustr ''3-old.mp3''" "ustr ''My_ Show_Title''" "ustr ''.mp3''" ?u]
  from inst pos pre have p: "prefix_for_drive ?e = Some 7" by simp
  from inst pos p have "custom_drive_name sample_lib ?e (ustr ''3-old.mp3'')
      = py_str 7 @ [45] @ strip_leading_number_spec sample_lib (ustr ''3-old.mp3'')" by blast
  then have c1: "custom_drive_name sample_lib ?e (ustr ''3-old.mp3'') = ustr ''7-old.mp3''"
    by (simp add: strip py_str_small) (simp add: ustr_def)
  have "(0::int) \<le> 7" by simp
  with inst pos p have "custom_drive_name sample_lib ?e (build_filename (Some 7) (ustr ''My_ Show_Title'') (ustr ''.mp3''))
      = build_filename (Some 7) (ustr ''My_ Show_Title'') (ustr ''.mp3'')" by blast
  then have c2: "custom_drive_name sample_lib ?e (ustr ''7-My_ Show_Title.mp3'') = ustr ''7-My_ Show_Title.mp3''"
    by (simp add: b)
  from pos p c1 c2 gen show ?thesis by blast
qed

section \<open>Candidate selection\<close>

lemma sort_desc_sorted: "sorted (rev (map key (sort_desc key xs)))"
  by (simp add: sort_desc_def rev_map [symmetric])

lemma sort_desc_idem:
  assumes "sorted (rev (map key xs))"
  shows "sort_desc key xs = xs"
proof -
  from assms have "sorted (map key (rev xs))" by (simp add: rev_map)
  then have "sort_key key (rev xs) = rev xs" by (rule sort_key_id_if_sorted)
  then show ?thesis by (simp add: sort_desc_def)
qed

lemma mset_sort_desc [simp]: "mset (sort_desc key xs) = mset xs"
  by (simp add: sort_desc_def)

lemma length_sort_desc [simp]: "length (sort_desc key xs) = length xs"
  by (simp add: sort_desc_def)

lemma set_sort_desc [simp]: "set (sort_desc key xs) = set xs"
  by (simp add: sort_desc_def)

lemma comparable_set:
  "set xs = set ys \<Longrightarrow> comparable lib xs = comparable lib ys"
  by (simp add: comparable_def list_all_iff)

lemma comparable_sort_desc [simp]:
  "comparable lib (map key (sort_desc key' xs)) = comparable lib (map key xs)"
  by (rule comparable_set) simp

lemma comparable_take:
  "comparable lib (map key xs) \<Longrightarrow> comparable lib (map key (take n xs))"
  by (auto simp: comparable_def list_all_iff dest: in_set_takeD)

lemma find_filter_hd:
  "find P xs = (case filter P xs of [] \<Rightarrow> None | x # later \<Rightarrow> Some x)"
  by (induction xs) simp_all

lemma first_nonempty_truthy:
  "first_nonempty texts = None \<or> truthy (first_nonempty texts)"
proof (cases "filter truthy texts")
  case Nil
  then show ?thesis by (simp add: first_nonempty_def)
next
  case (Cons t later)
  then have "t \<in> set (filter truthy texts)" by simp
  then have "truthy t" by simp
  with Cons show ?thesis by (simp add: first_nonempty_def)
qed

lemma item_audio: "ep_audio_url (item_to_episode lib item) = audio_reference item"
  by (simp add: item_to_episode_def audio_reference_def first_nonempty_def find_filter_hd Let_def
      split: list.splits)

lemma item_published:
  "truthy (ep_published (item_to_episode lib item)) \<or> publish_text item \<noteq> None \<Longrightarrow>
     ep_published (item_to_episode lib item) = publish_text item"
  by (auto simp: item_to_episode_def publish_text_def first_nonempty_def str_or_def Let_def)

lemma item_parsed: "ep_parsed (item_to_episode lib item) = publish_date lib item"
proof (cases "truthy (ep_published (item_to_episode lib item)) \<or> publish_text item \<noteq> None")
  case True
  then have e: "ep_published (item_to_episode lib item) = publish_text item" by (rule item_published)
  have t: "publish_text item = None \<or> truthy (publish_text item)"
    unfolding publish_text_def by (rule first_nonempty_truthy)
  have "ep_parsed (item_to_episode lib item)
          = (case ep_published (item_to_episode lib item) of
               Some p \<Rightarrow> if p \<noteq> [] then parse_date lib p else None
             | None \<Rightarrow> None)"
    by (simp add: item_to_episode_def Let_def)
  also have "\<dots> = publish_date lib item"
    unfolding e publish_date_def using t by (cases "publish_text item") auto
  finally show ?thesis .
next
  case False
  then have f: "\<not> truthy (ep_published (item_to_episode lib item))" and n: "publish_text item = None"
    by simp_all
  have "ep_parsed (item_to_episode lib item)
          = (case ep_published (item_to_episode lib item) of
               Some p \<Rightarrow> if p \<noteq> [] then parse_date lib p else None
             | None \<Rightarrow> None)"
    by (simp add: item_to_episode_def Let_def)
  also have "\<dots> = None" using f by (cases "ep_published (item_to_episode lib item)") auto
  finally show ?thesis by (simp add: publish_date_def n)
qed

lemma item_valid:
  "(ep_parsed (item_to_episode lib item) \<noteq> None \<and> truthy (ep_audio_url (item_to_episode lib item)))
     = has_date_and_audio lib item"
proof -
  have "truthy (audio_reference item) = (audio_reference item \<noteq> None)"
    using first_nonempty_truthy [of "it_enclosure_urls item"]
    by (cases "first_nonempty (it_enclosure_urls item)") (auto simp: audio_reference_def)
  then show ?thesis by (simp add: item_parsed item_audio has_date_and_audio_def)
qed

lemma item_descriptor:
  assumes "has_date_and_audio lib item"
  shows "item_to_episode lib item = descriptor lib item"
proof -
  from assms have "publish_text item \<noteq> None"
    by (cases "publish_text item") (simp_all add: has_date_and_audio_def publish_date_def)
  then have "ep_published (item_to_episode lib item) = publish_text item"
    by (simp add: item_published)
  moreover have "ep_title (item_to_episode lib item)
      = Val (case it_title item of Some t \<Rightarrow> t | None \<Rightarrow> ustr ''(no title)'')"
    "ep_guid (item_to_episode lib item) = None" "ep_db_id (item_to_episode lib item) = None"
    "ep_podcast_seq (item_to_episode lib item) = None" "ep_upload_num (item_to_episode lib item) = None"
    by (simp_all add: item_to_episode_def Let_def)
  ultimately show ?thesis
    by (intro episode.equality) (simp_all add: descriptor_def item_parsed item_audio)
qed

lemma valid_episodes_filter:
  "filter (\<lambda>e. ep_parsed e \<noteq> None \<and> truthy (ep_audio_url e)) (map (item_to_episode lib) items)
     = valid_episodes lib items"
proof -
  have "filter (\<lambda>e. ep_parsed e \<noteq> None \<and> truthy (ep_audio_url e)) (map (item_to_episode lib) items)
          = map (item_to_episode lib) (filter (has_date_and_audio lib) items)"
    by (simp only: filter_map comp_def item_valid)
  also have "\<dots> = map (descriptor lib) (filter (has_date_and_audio lib) items)"
    by (rule map_cong) (simp_all add: item_descriptor)
  finally show ?thesis by (simp only: valid_episodes_def)
qed

lemma valid_episodes_parsed:
  assumes "e \<in> set (valid_episodes lib items)"
  shows "ep_parsed e \<noteq> None"
    and "(case ep_published e of
            Some date_str \<Rightarrow> if date_str \<noteq> [] then parse_date lib date_str else None
          | None \<Rightarrow> None) = ep_parsed e"
    and "truthy (ep_audio_url e)"
    and "ep_title e \<noteq> PyNone"
proof -
  from assms obtain item where v: "has_date_and_audio lib item" and e: "e = descriptor lib item"
    by (auto simp: valid_episodes_def)
  from v e show "ep_parsed e \<noteq> None" by (simp add: has_date_and_audio_def descriptor_def)
  have t: "publish_text item = None \<or> truthy (publish_text item)"
    unfolding publish_text_def by (rule first_nonempty_truthy)
  then show "(case ep_published e of
            Some date_str \<Rightarrow> if date_str \<noteq> [] then parse_date lib date_str else None
          | None \<Rightarrow> None) = ep_parsed e"
    unfolding e by (cases "publish_text item") (auto simp: descriptor_def publish_date_def)
  from v first_nonempty_truthy [of "it_enclosure_urls item"] show "truthy (ep_audio_url e)"
    unfolding e by (auto simp: descriptor_def has_date_and_audio_def audio_reference_def)
  show "ep_title e \<noteq> PyNone" unfolding e by (simp add: descriptor_def)
qed

lemma feed_parser_unfold:
  "feed_parser_get_latest_episodes lib (Channel items) n
     = (if comparable lib (map (\<lambda>e. the (ep_parsed e)) (valid_episodes lib items))
        then take n (sort_desc (\<lambda>e. the (ep_parsed e)) (valid_episodes lib items))
        else [])"
proof -
  have "feed_parser_get_latest_episodes lib (Channel items) n
          = (case py_sort_desc lib (\<lambda>e. the (ep_parsed e))
                    (filter (\<lambda>e. ep_parsed e \<noteq> None \<and> truthy (ep_audio_url e))
                       (map (item_to_episode lib) items)) of
               None \<Rightarrow> []
             | Some eps2 \<Rightarrow> take n eps2)"
    by (simp only: feed_parser_get_latest_episodes_def feed_doc.case Let_def)
  also have "\<dots> = (case py_sort_desc lib (\<lambda>e. the (ep_parsed e)) (valid_episodes lib items) of
               None \<Rightarrow> []
             | Some eps2 \<Rightarrow> take n eps2)"
    by (simp only: valid_episodes_filter)
  finally show ?thesis by (simp add: py_sort_desc_def)
qed

lemma feed_parser_few:
  assumes "length (valid_episodes lib items) \<le> 50"
    and "dates_of_one_kind lib items"
  shows "feed_parser_get_latest_episodes lib (Channel items) 50
           = sort_desc (\<lambda>e. the (ep_parsed e)) (valid_episodes lib items)"
  using assms by (simp add: feed_parser_unfold dates_of_one_kind_def)

lemma map_filter_all_Some:
  assumes "\<forall>x \<in> set xs. f x = Some (g x)"
  shows "List.map_filter f xs = map g xs"
  using assms by (induction xs) (simp_all add: List.map_filter_def)

lemma downloader_on_sorted:
  assumes "\<forall>e \<in> set eps. ep_parsed e \<noteq> None \<and>
             (case ep_published e of
                Some date_str \<Rightarrow> if date_str \<noteq> [] then parse_date lib date_str else None
              | None \<Rightarrow> None) = ep_parsed e"
    and "sorted (rev (map (\<lambda>e. the (ep_parsed e)) eps))"
    and "length eps \<le> 5"
    and "comparable lib (map (\<lambda>e. the (ep_parsed e)) eps)"
  shows "downloader_get_latest_episodes lib eps = Inr eps"
proof -
  let ?pair = "\<lambda>e. (the (ep_parsed e), e)"
  have "List.map_filter
          (\<lambda>ep. case (case ep_published ep of
                         Some date_str \<Rightarrow> if date_str \<noteq> [] then parse_date lib date_str else None
                       | None \<Rightarrow> None) of
                   Some parsed \<Rightarrow> Some (parsed, ep)
                 | None \<Rightarrow> None) eps = map ?pair eps"
    by (rule map_filter_all_Some) (use assms(1) in auto)
  moreover have "sort_desc fst (map ?pair eps) = map ?pair eps"
    by (rule sort_desc_idem) (use assms(2) in \<open>simp add: comp_def\<close>)
  moreover have "comparable lib (map fst (map ?pair eps))"
    using assms(4) by (simp add: comp_def)
  ultimately show ?thesis
    using assms(3) by (simp add: downloader_get_latest_episodes_def py_sort_desc_def Let_def comp_def)
qed

lemma select_candidates_few:
  assumes "length (valid_episodes lib items) \<le> 5"
    and "dates_of_one_kind lib items"
  shows "downloader_get_latest_episodes lib (feed_parser_get_latest_episodes lib (Channel items) 50)
           = Inr (sort_desc (\<lambda>e. the (ep_parsed e)) (valid_episodes lib items))"
    and "select_candidates lib (Channel items)
           = rev (sort_desc (\<lambda>e. the (ep_parsed e)) (valid_episodes lib items))"
proof -
  let ?F = "sort_desc (\<lambda>e. the (ep_parsed e)) (valid_episodes lib items)"
  have fp: "feed_parser_get_latest_episodes lib (Channel items) 50 = ?F"
    using assms by (simp add: feed_parser_few)
  have "downloader_get_latest_episodes lib ?F = Inr ?F"
  proof (rule downloader_on_sorted)
    show "\<forall>e \<in> set ?F. ep_parsed e \<noteq> None \<and>
             (case ep_published e of
                Some date_str \<Rightarrow> if date_str \<noteq> [] then parse_date lib date_str else None
              | None \<Rightarrow> None) = ep_parsed e"
      using valid_episodes_parsed(1,2) [of _ lib items] by simp
    show "sorted (rev (map (\<lambda>e. the (ep_parsed e)) ?F))" by (rule sort_desc_sorted)
    show "length ?F \<le> 5" using assms(1) by simp
    show "comparable lib (map (\<lambda>e. the (ep_parsed e)) ?F)"
      using assms(2) by (simp add: dates_of_one_kind_def)
  qed
  with fp show a: "downloader_get_latest_episodes lib (feed_parser_get_latest_episodes lib (Channel items) 50) = Inr ?F"
    by simp
  show "select_candidates lib (Channel items) = rev ?F"
  proof (cases "?F = []")
    case True
    then show ?thesis by (simp add: select_candidates_def fp Let_def)
  next
    case False
    then show ?thesis using a by (simp add: select_candidates_def fp Let_def)
  qed
qed

lemma select_candidates_mixed:
  assumes "\<not> dates_of_one_kind lib items"
  shows "feed_parser_get_latest_episodes lib (Channel items) n = []"
    and "select_candidates lib (Channel items) = []"
proof -
  show "feed_parser_get_latest_episodes lib (Channel items) n = []" for n
    using assms by (simp add: feed_parser_unfold dates_of_one_kind_def)
  then show "select_candidates lib (Channel items) = []"
    by (simp add: select_candidates_def Let_def)
qed

text \<open>
  C5. Take 12 feed items of which exactly 4 have both a date that parses and an audio
  reference. When the dates of those 4 are all offset-aware or all naive, the selection
  returns exactly their descriptors: the list that \<open>PodcastDownloader.get_latest_episodes\<close>
  returns is those 4 sorted by parsed date, newest first, and the candidates are that
  list reversed, so oldest first. When the 4 dates are of both kinds, the sort of the
  feed parser raises, the parser returns the empty list, and none of the 4 valid items
  is selected.
\<close>

theorem select_candidates_four_of_twelve:
  "length items = 12 \<and> length (filter (has_date_and_audio lib) items) = 4 \<longrightarrow>
     (dates_of_one_kind lib items \<longrightarrow>
        select_candidates lib (Channel items)
          = rev (sort_desc (\<lambda>e. the (ep_parsed e)) (valid_episodes lib items))
        \<and> downloader_get_latest_episodes lib (feed_parser_get_latest_episodes lib (Channel items) 50)
          = Inr (sort_desc (\<lambda>e. the (ep_parsed e)) (valid_episodes lib items))
        \<and> length (select_candidates lib (Channel items)) = 4
        \<and> mset (select_candidates lib (Channel items)) = mset (valid_episodes lib items)
        \<and> sorted (map (\<lambda>e. the (ep_parsed e)) (select_candidates lib (Channel items))))
     \<and> (\<not> dates_of_one_kind lib items \<longrightarrow>
          feed_parser_get_latest_episodes lib (Channel items) 50 = []
          \<and> select_candidates lib (Channel items) = [])"
proof (intro impI conjI)
  assume "\<not> dates_of_one_kind lib items"
  then show "feed_parser_get_latest_episodes lib (Channel items) 50 = []"
    "select_candidates lib (Channel items) = []"
    by (rule select_candidates_mixed)+
next
  assume a: "length items = 12 \<and> length (filter (has_date_and_audio lib) items) = 4"
    and k: "dates_of_one_kind lib items"
  from a have n: "length (valid_episodes lib items) = 4" by (simp add: valid_episodes_def)
  then have le: "length (valid_episodes lib items) \<le> 5" by simp
  note sel = select_candidates_few [OF le k]
  have srt: "sorted (map (\<lambda>e. the (ep_parsed e)) (rev (sort_desc (\<lambda>e. the (ep_parsed e)) (valid_episodes lib items))))"
    using sort_desc_sorted [of "\<lambda>e. the (ep_parsed e)" "valid_episodes lib items"]
    by (simp add: rev_map)
  show "select_candidates lib (Channel items)
          = rev (sort_desc (\<lambda>e. the (ep_parsed e)) (valid_episodes lib items))"
    by (rule sel)
  show "downloader_get_latest_episodes lib (feed_parser_get_latest_episodes lib (Channel items) 50)
          = Inr (sort_desc (\<lambda>e. the (ep_parsed e)) (valid_episodes lib items))"
    by (rule sel)
  show "length (select_candidates lib (Channel items)) = 4" using sel(2) n by simp
  show "mset (select_candidates lib (Channel items)) = mset (valid_episodes lib items)"
    using sel(2) by simp
  show "sorted (map (\<lambda>e. the (ep_parsed e)) (select_candidates lib (Channel items)))"
    using sel(2) srt by simp
qed

lemmas item_defs = twelve_items_def sample_item_def item_to_episode_def str_or_def
  has_date_and_audio_def valid_episodes_def descriptor_def publish_text_def publish_date_def
  audio_reference_def first_nonempty_def

lemma twelve_items_valid:
  "map (\<lambda>e. (ep_parsed e, ep_audio_url e)) (valid_episodes sample_lib twelve_items)
     = [(Some 3, Some (ustr ''u3'')), (Some 1, Some (ustr ''u1'')),
        (Some 4, Some (ustr ''u4'')), (Some 2, Some (ustr ''u2''))]"
  by (simp add: item_defs lib_defs ustr_def Let_def)

lemma mixed_items_valid:
  "map (\<lambda>e. (ep_parsed e, ep_audio_url e)) (valid_episodes sample_lib mixed_items)
     = [(Some 3, Some (ustr ''u3'')), (Some 1, Some (ustr ''u1'')),
        (Some 14, Some (ustr ''u4'')), (Some 2, Some (ustr ''u2''))]"
  by (simp add: mixed_items_def item_defs lib_defs ustr_def Let_def)

lemma length_by_map: "map f xs = ys \<Longrightarrow> length xs = length ys"
  by auto

theorem select_candidates_four_of_twelve_witness:
  "length twelve_items = 12
   \<and> length (filter (has_date_and_audio sample_lib) twelve_items) = 4
   \<and> dates_of_one_kind sample_lib twelve_items
   \<and> map ep_audio_url (select_candidates sample_lib (Channel twelve_items))
       = [Some (ustr ''u1''), Some (ustr ''u2''), Some (ustr ''u3''), Some (ustr ''u4'')]
   \<and> map ep_parsed (select_candidates sample_lib (Channel twelve_items))
       = [Some 1, Some 2, Some 3, Some 4]
   \<and> length mixed_items = 12
   \<and> length (filter (has_date_and_audio sample_lib) mixed_items) = 4
   \<and> \<not> dates_of_one_kind sample_lib mixed_items
   \<and> select_candidates sample_lib (Channel mixed_items) = []"
proof -
  have l: "length twelve_items = 12" by (simp add: twelve_items_def)
  have "length (valid_episodes sample_lib twelve_items) = 4"
    using length_by_map [OF twelve_items_valid] by simp
  then have f: "length (filter (has_date_and_audio sample_lib) twelve_items) = 4"
    by (simp add: valid_episodes_def)
  have "map (\<lambda>e. the (ep_parsed e)) (valid_episodes sample_lib twelve_items)
          = map (\<lambda>p. the (fst p)) (map (\<lambda>e. (ep_parsed e, ep_audio_url e)) (valid_episodes sample_lib twelve_items))"
    by (simp add: comp_def)
  then have d: "map (\<lambda>e. the (ep_parsed e)) (valid_episodes sample_lib twelve_items) = [3, 1, 4, 2]"
    by (simp only: twelve_items_valid) simp
  have k: "dates_of_one_kind sample_lib twelve_items"
    unfolding dates_of_one_kind_def d by (simp add: comparable_def sample_lib_def)
  note inst = select_candidates_four_of_twelve [of twelve_items sample_lib, THEN mp, OF conjI [OF l f]]
  have sel: "select_candidates sample_lib (Channel twelve_items)
       = rev (sort_desc (\<lambda>e. the (ep_parsed e)) (valid_episodes sample_lib twelve_items))"
    using inst [THEN conjunct1, THEN mp, OF k] by (rule conjunct1)
  have "map (\<lambda>e. (ep_parsed e, ep_audio_url e))
          (rev (sort_desc (\<lambda>e. the (ep_parsed e)) (valid_episodes sample_lib twelve_items)))
        = [(Some 1, Some (ustr ''u1'')), (Some 2, Some (ustr ''u2'')),
           (Some 3, Some (ustr ''u3'')), (Some 4, Some (ustr ''u4''))]"
    by (simp add: item_defs lib_defs ustr_def Let_def sort_desc_def)
  then have r: "map (\<lambda>e. (ep_parsed e, ep_audio_url e)) (select_candidates sample_lib (Channel twelve_items))
        = [(Some 1, Some (ustr ''u1'')), (Some 2, Some (ustr ''u2'')),
           (Some 3, Some (ustr ''u3'')), (Some 4, Some (ustr ''u4''))]"
    by (simp only: sel)
  have "map ep_audio_url (select_candidates sample_lib (Channel twelve_items))
      = map snd (map (\<lambda>e. (ep_parsed e, ep_audio_url e)) (select_candidates sample_lib (Channel twelve_items)))"
    and "map ep_parsed (select_candidates sample_lib (Channel twelve_items))
      = map fst (map (\<lambda>e. (ep_parsed e, ep_audio_url e)) (select_candidates sample_lib (Channel twelve_items)))"
    by (simp_all add: comp_def)
  with r have u: "map ep_audio_url (select_candidates sample_lib (Channel twelve_items))
       = [Some (ustr ''u1''), Some (ustr ''u2''), Some (ustr ''u3''), Some (ustr ''u4'')]"
    and q: "map ep_parsed (select_candidates sample_lib (Channel twelve_items))
       = [Some 1, Some 2, Some 3, Some 4]"
    by simp_all
  have lm: "length mixed_items = 12" by (simp add: mixed_items_def twelve_items_def)
  have "length (valid_episodes sample_lib mixed_items) = 4"
    using length_by_map [OF mixed_items_valid] by simp
  then have fm: "length (filter (has_date_and_audio sample_lib) mixed_items) = 4"
    by (simp add: valid_episodes_def)
  have "map (\<lambda>e. the (ep_parsed e)) (valid_episodes sample_lib mixed_items)
          = map (\<lambda>p. the (fst p)) (map (\<lambda>e. (ep_parsed e, ep_audio_url e)) (valid_episodes sample_lib mixed_items))"
    by (simp add: comp_def)
  then have dm: "map (\<lambda>e. the (ep_parsed e)) (valid_episodes sample_lib mixed_items) = [3, 1, 14, 2]"
    by (simp only: mixed_items_valid) simp
  have km: "\<not> dates_of_one_kind sample_lib mixed_items"
    unfolding dates_of_one_kind_def dm by (simp add: comparable_def sample_lib_def)
  have none: "select_candidates sample_lib (Channel mixed_items) = []"
    using select_candidates_four_of_twelve [of mixed_items sample_lib, THEN mp, OF conjI [OF lm fm],
        THEN conjunct2, THEN mp, OF km]
    by (rule conjunct2)
  show ?thesis by (intro conjI l f k u q lm fm km none)
qed

text \<open>
  Twelve items, four of them valid, one of the four with an offset-aware date and three
  with naive dates: the selection is empty.
\<close>

theorem select_candidates_mixed_counterexample:
  "length mixed_items = 12
   \<and> length (filter (has_date_and_audio sample_lib) mixed_items) = 4
   \<and> map ep_parsed (valid_episodes sample_lib mixed_items) = [Some 3, Some 1, Some 14, Some 2]
   \<and> map (aware sample_lib) [3, 1, 14, 2] = [False, False, True, False]
   \<and> feed_parser_get_latest_episodes sample_lib (Channel mixed_items) 50 = []
   \<and> select_candidates sample_lib (Channel mixed_items) = []"
proof -
  have lm: "length mixed_items = 12" by (simp add: mixed_items_def twelve_items_def)
  have "length (valid_episodes sample_lib mixed_items) = 4"
    using length_by_map [OF mixed_items_valid] by simp
  then have fm: "length (filter (has_date_and_audio sample_lib) mixed_items) = 4"
    by (simp add: valid_episodes_def)
  have "map ep_parsed (valid_episodes sample_lib mixed_items)
          = map fst (map (\<lambda>e. (ep_parsed e, ep_audio_url e)) (valid_episodes sample_lib mixed_items))"
    by (simp add: comp_def)
  then have dm: "map ep_parsed (valid_episodes sample_lib mixed_items) = [Some 3, Some 1, Some 14, Some 2]"
    by (simp only: mixed_items_valid) simp
  have aw: "map (aware sample_lib) [3, 1, 14, 2] = [False, False, True, False]"
    by (simp add: sample_lib_def)
  have "map (\<lambda>e. the (ep_parsed e)) (valid_episodes sample_lib mixed_items)
          = map the (map ep_parsed (valid_episodes sample_lib mixed_items))"
    by (simp add: comp_def)
  then have "map (\<lambda>e. the (ep_parsed e)) (valid_episodes sample_lib mixed_items) = [3, 1, 14, 2]"
    by (simp only: dm) simp
  then have nc: "\<not> comparable sample_lib (map (\<lambda>e. the (ep_parsed e)) (valid_episodes sample_lib mixed_items))"
    by (simp add: comparable_def sample_lib_def)
  have fp: "feed_parser_get_latest_episodes sample_lib (Channel mixed_items) 50 = []"
    using nc by (simp add: feed_parser_unfold)
  then have sc: "select_candidates sample_lib (Channel mixed_items) = []"
    by (simp add: select_candidates_def Let_def)
  show ?thesis by (intro conjI lm fm dm aw fp sc)
qed

section \<open>Retention\<close>

lemma length_deletion_outcomes: "length (deletion_outcomes ops eps w) = length eps"
  by (induction eps arbitrary: w) (auto split: prod.splits)

lemma clear_presence_insert:
  "clear_presence ids (map (\<lambda>r. if row_id r = i then r\<lparr>in_drive := 0\<rparr> else r) rows)
     = clear_presence (i # ids) rows"
  by (simp add: clear_presence_def)

lemma deleted_ids_Cons:
  "deleted_ids ops (ep # rest) w =
     (if truthy (drive_file_id ep)
      then (case delete_file ops (the (drive_file_id ep)) w of
              (outcome, w1) \<Rightarrow>
                (if outcome = Deleted then [row_id ep] else []) @ deleted_ids ops rest w1)
      else deleted_ids ops rest w)"
  by (auto simp: deleted_ids_def split: prod.splits)

lemma remove_old_episodes_catalog:
  "fst (remove_old_episodes ops eps (db, w))
     = db\<lparr>episodes := clear_presence (deleted_ids ops eps w) (episodes db)\<rparr>"
proof (induction eps arbitrary: db w)
  case Nil
  show ?case by (simp add: deleted_ids_def clear_presence_def)
next
  case (Cons ep rest)
  show ?case
  proof (cases "truthy (drive_file_id ep)")
    case False
    then show ?thesis using Cons.IH by (simp add: deleted_ids_Cons)
  next
    case True
    obtain outcome w1 where d: "delete_file ops (the (drive_file_id ep)) w = (outcome, w1)"
      by (cases "delete_file ops (the (drive_file_id ep)) w")
    show ?thesis
    proof (cases outcome)
      case Deleted
      have "clear_presence (deleted_ids ops rest w1)
              (map (\<lambda>r. if row_id r = row_id ep then r\<lparr>in_drive := 0\<rparr> else r) (episodes db))
            = clear_presence (row_id ep # deleted_ids ops rest w1) (episodes db)"
        by (rule clear_presence_insert)
      with Deleted True d show ?thesis
        using Cons.IH [of "mark_episode_in_drive (row_id ep) False db" w1]
        by (simp add: deleted_ids_Cons mark_episode_in_drive_def)
    next
      case DeleteFailed
      with True d show ?thesis using Cons.IH [of db w1] by (simp add: deleted_ids_Cons)
    next
      case DeleteRaised
      with True d show ?thesis using Cons.IH [of db w1] by (simp add: deleted_ids_Cons)
    qed
  qed
qed

lemma deleted_ids_outcome:
  assumes "i \<in> set (deleted_ids ops eps w)"
  shows "\<exists>j < length eps. row_id (eps ! j) = i \<and> deletion_outcomes ops eps w ! j = Some Deleted"
proof -
  from assms obtain ep where "(ep, Some Deleted) \<in> set (zip eps (deletion_outcomes ops eps w))"
    "row_id ep = i"
    by (auto simp: deleted_ids_def)
  then show ?thesis
    by (auto simp: in_set_zip length_deletion_outcomes)
qed

lemma outcome_deleted_ids:
  assumes "j < length eps" "deletion_outcomes ops eps w ! j = Some Deleted"
  shows "row_id (eps ! j) \<in> set (deleted_ids ops eps w)"
proof -
  from assms have "(eps ! j, Some Deleted) \<in> set (zip eps (deletion_outcomes ops eps w))"
    by (auto simp: in_set_zip length_deletion_outcomes)
  then show ?thesis by (force simp: deleted_ids_def)
qed

lemma not_deleted_unchanged:
  assumes "distinct (map row_id eps)" "j < length eps"
    "deletion_outcomes ops eps w ! j \<noteq> Some Deleted"
  shows "row_id (eps ! j) \<notin> set (deleted_ids ops eps w)"
proof
  assume "row_id (eps ! j) \<in> set (deleted_ids ops eps w)"
  then have "\<exists>k < length eps. row_id (eps ! k) = row_id (eps ! j) \<and>
               deletion_outcomes ops eps w ! k = Some Deleted"
    by (rule deleted_ids_outcome)
  then obtain k where k: "k < length eps" "row_id (eps ! k) = row_id (eps ! j)"
    "deletion_outcomes ops eps w ! k = Some Deleted"
    by (elim exE conjE)
  from k(1,2) assms(2) have eq: "map row_id eps ! k = map row_id eps ! j" by simp
  have "(map row_id eps ! k = map row_id eps ! j) = (k = j)"
    by (rule nth_eq_iff_index_eq [OF assms(1)]) (simp_all add: k(1) assms(2))
  with eq have "k = j" by (simp only:)
  with k assms(3) show False by simp
qed

lemma clear_presence_keeps:
  assumes "r \<in> set rows" "row_id r \<notin> set ids"
  shows "r \<in> set (clear_presence ids rows)"
  using assms by (force simp: clear_presence_def)

lemma in_get_episodes_with_drive:
  "r \<in> set (get_episodes_with_drive name db) \<longleftrightarrow>
     r \<in> set (episodes db) \<and> podcast_name r = name \<and> drive_file_id r \<noteq> None \<and> in_drive r = 1"
  unfolding get_episodes_with_drive_def sort_desc_def set_rev set_sort set_filter by blast

lemma get_episodes_with_drive_present:
  "get_episodes_with_drive name db = sort_desc downloaded_date (filter (is_present name) (episodes db))"
  by (simp add: get_episodes_with_drive_def is_present_def [abs_def])

lemma filter_key_single:
  assumes "distinct (map key ys)" "k \<in> set ys"
  shows "filter (\<lambda>x. key k = key x) ys = [k]"
  using assms
proof (induction ys)
  case Nil
  then show ?case by simp
next
  case (Cons y ys)
  show ?case
  proof (cases "k = y")
    case True
    with Cons.prems have "\<forall>x \<in> set ys. key y \<noteq> key x" by auto
    then have "filter (\<lambda>x. key y = key x) ys = []" by (simp add: filter_empty_conv)
    with True show ?thesis by simp
  next
    case False
    with Cons.prems have k: "k \<in> set ys" by simp
    from Cons.prems(1) have "key y \<notin> key ` set ys" by simp
    with k have "key k \<noteq> key y" by (metis imageI)
    with Cons k show ?thesis by simp
  qed
qed

lemma sort_desc_unique:
  assumes "mset xs = mset ys" "sorted (rev (map key ys))" "distinct (map key ys)"
  shows "sort_desc key xs = ys"
proof -
  have dx: "distinct (map key xs)"
  proof -
    have "mset (map key xs) = mset (map key ys)" using assms(1) by (metis mset_map)
    then show ?thesis using assms(3) by (metis mset_eq_imp_distinct_iff)
  qed
  have "sort_key key (rev xs) = rev ys"
  proof (rule properties_for_sort_key)
    show "mset (rev ys) = mset (rev xs)" using assms(1) by simp
    show "sorted (map key (rev ys))" using assms(2) by (simp add: rev_map)
    fix k assume "k \<in> set (rev ys)"
    then have k: "k \<in> set ys" by simp
    then have kx: "k \<in> set xs" using assms(1) by (metis mset_eq_setD)
    have "filter (\<lambda>x. key k = key x) ys = [k]" using assms(3) k by (rule filter_key_single)
    moreover have "filter (\<lambda>x. key k = key x) xs = [k]" using dx kx by (rule filter_key_single)
    ultimately show "filter (\<lambda>x. key k = key x) (rev ys) = filter (\<lambda>x. key k = key x) (rev xs)"
      by (simp add: rev_filter [symmetric])
  qed
  then show ?thesis by (simp add: sort_desc_def)
qed

lemma filter_present_clear:
  "filter (is_present name) (clear_presence ids rows)
     = filter (\<lambda>r. is_present name r \<and> row_id r \<notin> set ids) rows"
  by (induction rows) (simp_all add: clear_presence_def is_present_def)

lemma distinct_ids_differ:
  assumes "distinct (map row_id rows)" "a \<in> set rows" "b \<in> set rows" "a \<noteq> b"
  shows "row_id a \<noteq> row_id b"
  using assms by (meson distinct_map inj_onD)

text \<open>
  C6. The retention loop handles every surplus episode: each has an outcome, whatever
  the outcomes before it. The catalog after the loop is the catalog before it with the
  presence flag cleared for the episodes whose delete succeeded: their rows stay, no other
  field and no other row changes. An episode whose delete failed or raised (the ids of
  the surplus episodes being distinct) is not among them: its row is as before, and if it
  was a retention candidate it still is.
\<close>

theorem remove_old_episodes_presence:
  "length (deletion_outcomes ops eps w) = length eps
   \<and> fst (remove_old_episodes ops eps (db, w))
       = db\<lparr>episodes := clear_presence (deleted_ids ops eps w) (episodes db)\<rparr>
   \<and> (\<forall>j < length eps. deletion_outcomes ops eps w ! j = Some Deleted \<longrightarrow>
         row_id (eps ! j) \<in> set (deleted_ids ops eps w))
   \<and> (distinct (map row_id eps) \<longrightarrow>
        (\<forall>j < length eps. deletion_outcomes ops eps w ! j \<noteq> Some Deleted \<longrightarrow>
           row_id (eps ! j) \<notin> set (deleted_ids ops eps w)
           \<and> (eps ! j \<in> set (get_episodes_with_drive name db) \<longrightarrow>
                eps ! j \<in> set (get_episodes_with_drive name (fst (remove_old_episodes ops eps (db, w)))))))"
proof (intro conjI allI impI)
  show "length (deletion_outcomes ops eps w) = length eps" by (rule length_deletion_outcomes)
  show cat: "fst (remove_old_episodes ops eps (db, w))
       = db\<lparr>episodes := clear_presence (deleted_ids ops eps w) (episodes db)\<rparr>"
    by (rule remove_old_episodes_catalog)
  fix j
  assume d: "distinct (map row_id eps)" and j: "j < length eps"
    and o: "deletion_outcomes ops eps w ! j \<noteq> Some Deleted"
  from d j o show n: "row_id (eps ! j) \<notin> set (deleted_ids ops eps w)"
    by (rule not_deleted_unchanged)
  assume "eps ! j \<in> set (get_episodes_with_drive name db)"
  then have m: "eps ! j \<in> set (episodes db)" and p: "podcast_name (eps ! j) = name"
    "drive_file_id (eps ! j) \<noteq> None" "in_drive (eps ! j) = 1"
    by (simp_all add: in_get_episodes_with_drive)
  from m n have "eps ! j \<in> set (clear_presence (deleted_ids ops eps w) (episodes db))"
    by (rule clear_presence_keeps)
  with p show "eps ! j \<in> set (get_episodes_with_drive name (fst (remove_old_episodes ops eps (db, w))))"
    by (simp add: in_get_episodes_with_drive cat)
next
  fix j
  assume "j < length eps" "deletion_outcomes ops eps w ! j = Some Deleted"
  then show "row_id (eps ! j) \<in> set (deleted_ids ops eps w)" by (rule outcome_deleted_ids)
qed

lemmas retention_defs = present_row_def five_present_def sample_cfg_def world_with_def sample_ops_def

theorem remove_old_episodes_presence_witness:
  "distinct (map row_id [present_row 2, present_row 1])
   \<and> deletion_outcomes (sample_ops NoChannel) [present_row 2, present_row 1] (world_with [DeleteFailed])
       = [Some DeleteFailed, Some Deleted]
   \<and> present_row 2 \<in> set (get_episodes_with_drive (ustr ''A'') five_present)
   \<and> present_row 2 \<in> set (get_episodes_with_drive (ustr ''A'')
        (fst (remove_old_episodes (sample_ops NoChannel) [present_row 2, present_row 1]
               (five_present, world_with [DeleteFailed]))))
   \<and> map (\<lambda>r. (row_id r, in_drive r))
        (episodes (fst (remove_old_episodes (sample_ops NoChannel) [present_row 2, present_row 1]
               (five_present, world_with [DeleteFailed]))))
       = [(3, 1), (1, 0), (5, 1), (2, 1), (4, 1)]"
proof -
  let ?ops = "sample_ops NoChannel"
  let ?eps = "[present_row 2, present_row 1]"
  let ?w = "world_with [DeleteFailed]"
  have d: "distinct (map row_id ?eps)" by (simp add: retention_defs sample_defs)
  have o: "deletion_outcomes ?ops ?eps ?w = [Some DeleteFailed, Some Deleted]"
    by (simp add: retention_defs sample_defs)
  have ids: "deleted_ids ?ops ?eps ?w = [1]"
    by (simp add: deleted_ids_def o) (simp add: retention_defs sample_defs)
  have m: "present_row 2 \<in> set (get_episodes_with_drive (ustr ''A'') five_present)"
    by (simp add: in_get_episodes_with_drive) (simp add: retention_defs sample_defs)
  note inst = remove_old_episodes_presence [of ?ops ?eps ?w five_present "ustr ''A''"]
  have j: "(0::nat) < length ?eps" "?eps ! 0 = present_row 2" by simp_all
  have j3: "deletion_outcomes ?ops ?eps ?w ! 0 \<noteq> Some Deleted" unfolding o by simp
  from inst d j j3 m
  have a: "present_row 2 \<in> set (get_episodes_with_drive (ustr ''A'')
        (fst (remove_old_episodes ?ops ?eps (five_present, ?w))))"
    by metis
  from inst have "fst (remove_old_episodes ?ops ?eps (five_present, ?w))
       = five_present\<lparr>episodes := clear_presence (deleted_ids ?ops ?eps ?w) (episodes five_present)\<rparr>"
    by blast
  then have b: "map (\<lambda>r. (row_id r, in_drive r))
        (episodes (fst (remove_old_episodes ?ops ?eps (five_present, ?w))))
       = [(3, 1), (1, 0), (5, 1), (2, 1), (4, 1)]"
    by (simp add: ids clear_presence_def) (simp add: retention_defs sample_defs)
  from d o m a b show ?thesis by blast
qed

lemma five_newest_first:
  assumes m: "mset (filter (is_present name) (episodes db)) = mset [e1, e2, e3, e4, e5]"
    and lt: "downloaded_date e1 < downloaded_date e2" "downloaded_date e2 < downloaded_date e3"
      "downloaded_date e3 < downloaded_date e4" "downloaded_date e4 < downloaded_date e5"
  shows "get_episodes_with_drive name db = [e5, e4, e3, e2, e1]"
  unfolding get_episodes_with_drive_present
proof (rule sort_desc_unique)
  have c: "downloaded_date e1 < downloaded_date e3" "downloaded_date e2 < downloaded_date e4"
    "downloaded_date e3 < downloaded_date e5"
    using lt by (blast intro: less_trans)+
  have c2: "downloaded_date e1 < downloaded_date e4" "downloaded_date e2 < downloaded_date e5"
    using lt c by (blast intro: less_trans)+
  have c3: "downloaded_date e1 < downloaded_date e5"
    using lt c2 by (blast intro: less_trans)
  show "mset (filter (is_present name) (episodes db)) = mset [e5, e4, e3, e2, e1]"
    unfolding m by (simp add: ac_simps)
  show "sorted (rev (map downloaded_date [e5, e4, e3, e2, e1]))"
    using lt c c2 c3 by (simp add: less_imp_le)
  show "distinct (map downloaded_date [e5, e4, e3, e2, e1])"
    using lt c c2 c3 by (simp add: less_imp_neq less_imp_not_eq2)
qed

lemma three_newest_first:
  assumes m: "mset xs = mset [e3, e4, e5]"
    and lt: "downloaded_date e3 < downloaded_date e4" "downloaded_date e4 < downloaded_date e5"
  shows "sort_desc downloaded_date xs = [e5, e4, e3]"
proof (rule sort_desc_unique)
  have c: "downloaded_date e3 < downloaded_date e5"
    using lt by (blast intro: less_trans)
  show "mset xs = mset [e5, e4, e3]" unfolding m by (simp add: ac_simps)
  show "sorted (rev (map downloaded_date [e5, e4, e3]))" using lt c by (simp add: less_imp_le)
  show "distinct (map downloaded_date [e5, e4, e3])"
    using lt c by (simp add: less_imp_neq less_imp_not_eq2)
qed

lemma remove_two_world:
  assumes "truthy (drive_file_id a)" "truthy (drive_file_id b)"
  shows "snd (remove_old_episodes ops [a, b] (db, w))
           = snd (delete_file ops (the (drive_file_id b)) (snd (delete_file ops (the (drive_file_id a)) w)))"
  using assms by (simp split: prod.splits delete_outcome.splits)

lemma deleted_ids_two:
  assumes "truthy (drive_file_id a)" "truthy (drive_file_id b)"
  shows "deleted_ids ops [a, b] w =
           (if fst (delete_file ops (the (drive_file_id a)) w) = Deleted then [row_id a] else [])
           @ (if fst (delete_file ops (the (drive_file_id b))
                        (snd (delete_file ops (the (drive_file_id a)) w))) = Deleted
              then [row_id b] else [])"
  using assms by (simp add: deleted_ids_Cons deleted_ids_def split: prod.splits)

lemma enforce_retention_positive:
  assumes "has_drive_uploader ops" "cfg_keep_count cfg = Some k" "0 < k"
  shows "enforce_retention ops cfg (db, w)
           = remove_old_episodes ops (drop (nat k) (get_episodes_with_drive (cfg_name cfg) db)) (db, w)"
  using assms by (simp add: enforce_retention_def effective_keep_def Let_def)

lemma enforce_retention_keep_all:
  assumes "cfg_keep_count cfg = Some (- 1) \<or>
           cfg_keep_count cfg = None \<and>
             (case get_podcast (cfg_name cfg) (fst s) of
                Some p \<Rightarrow> pod_keep_count p = Some (- 1) \<or> pod_keep_count p = None
              | None \<Rightarrow> True)"
  shows "enforce_retention ops cfg s = s"
  using assms
  by (auto simp: enforce_retention_def effective_keep_def split: option.splits)

lemma find_map_update:
  assumes "find (\<lambda>p. pod_name p = n) ps = Some old" "\<And>p. pod_name (g p) = pod_name p"
  shows "find (\<lambda>p. pod_name p = n) (map (\<lambda>p. if pod_name p = n then g p else p) ps)
           = Some (g old)"
  using assms(1) by (induction ps) (simp_all add: assms(2) split: if_splits)

lemma find_append_new:
  assumes "find P ps = None" "P x"
  shows "find P (ps @ [x]) = Some x"
  using assms by (induction ps) (auto split: if_splits)

lemma add_or_update_podcast_keep_all:
  assumes "keep = None \<or> keep = Some (- 1)"
    and "add_or_update_podcast n u f i keep now db0 = (Inr k, db1)"
  shows "\<exists>p. get_podcast n db1 = Some p \<and> pod_keep_count p = Some (- 1)"
proof (cases "find (\<lambda>p. pod_name p = n) (podcasts db0)")
  case None
  let ?new = "\<lparr>pod_id = next_podcast_id db0, pod_name = n, pod_rss_url = u,
                 pod_folder_name = f, pod_last_checked = Some now,
                 pod_drive_folder_id = i, pod_enabled = True,
                 pod_keep_count = Some (- 1)\<rparr>"
  from None assms have "podcasts db1 = podcasts db0 @ [?new]"
    by (auto simp: add_or_update_podcast_def Let_def split: if_splits)
  moreover have "find (\<lambda>p. pod_name p = n) (podcasts db0 @ [?new]) = Some ?new"
    using None by (intro find_append_new) simp_all
  ultimately show ?thesis by (simp add: get_podcast_def)
next
  case (Some old)
  let ?g = "\<lambda>p. p\<lparr>pod_rss_url := u, pod_folder_name := f, pod_last_checked := Some now,
                      pod_drive_folder_id := i, pod_keep_count := Some (- 1)\<rparr>"
  from Some assms have "podcasts db1 = map (\<lambda>p. if pod_name p = n then ?g p else p) (podcasts db0)"
    by (auto simp: add_or_update_podcast_def Let_def)
  moreover have "find (\<lambda>p. pod_name p = n) (map (\<lambda>p. if pod_name p = n then ?g p else p) (podcasts db0))
          = Some (?g old)" by (rule find_map_update [OF Some]) simp
  ultimately show ?thesis by (simp add: get_podcast_def)
qed

lemma retention_three_of_five:
  assumes up: "has_drive_uploader ops" and keep: "cfg_keep_count cfg = Some 3"
    and ids: "distinct (map row_id (episodes db))"
    and m: "mset (filter (is_present (cfg_name cfg)) (episodes db)) = mset [e1, e2, e3, e4, e5]"
    and lt: "downloaded_date e1 < downloaded_date e2" "downloaded_date e2 < downloaded_date e3"
      "downloaded_date e3 < downloaded_date e4" "downloaded_date e4 < downloaded_date e5"
    and f: "truthy (drive_file_id e1)" "truthy (drive_file_id e2)"
  shows "get_episodes_with_drive (cfg_name cfg) db = [e5, e4, e3, e2, e1]"
    and "enforce_retention ops cfg (db, w) = remove_old_episodes ops [e2, e1] (db, w)"
    and "{e3, e4, e5} \<subseteq> set (get_episodes_with_drive (cfg_name cfg)
                            (fst (remove_old_episodes ops [e2, e1] (db, w))))"
    and "deleted_ids ops [e2, e1] w = [row_id e2, row_id e1] \<Longrightarrow>
         get_episodes_with_drive (cfg_name cfg) (fst (remove_old_episodes ops [e2, e1] (db, w)))
           = [e5, e4, e3]"
proof -
  let ?name = "cfg_name cfg"
  let ?db' = "fst (remove_old_episodes ops [e2, e1] (db, w))"
  show g: "get_episodes_with_drive ?name db = [e5, e4, e3, e2, e1]"
    using m lt by (rule five_newest_first)
  show "enforce_retention ops cfg (db, w) = remove_old_episodes ops [e2, e1] (db, w)"
    using enforce_retention_positive [OF up keep, of db w] g by simp
  have cat: "?db' = db\<lparr>episodes := clear_presence (deleted_ids ops [e2, e1] w) (episodes db)\<rparr>"
    by (rule remove_old_episodes_catalog)
  have "set (filter (is_present ?name) (episodes db)) = set [e1, e2, e3, e4, e5]"
    using m by (rule mset_eq_setD)
  then have mem: "e1 \<in> set (episodes db)" "e2 \<in> set (episodes db)" "e3 \<in> set (episodes db)"
    "e4 \<in> set (episodes db)" "e5 \<in> set (episodes db)"
    and pres: "is_present ?name e3" "is_present ?name e4" "is_present ?name e5"
    by auto
  have c: "downloaded_date e1 < downloaded_date e3" "downloaded_date e2 < downloaded_date e4"
    "downloaded_date e3 < downloaded_date e5"
    using lt by (blast intro: less_trans)+
  have c2: "downloaded_date e1 < downloaded_date e4" "downloaded_date e2 < downloaded_date e5"
    using lt c by (blast intro: less_trans)+
  have c3: "downloaded_date e1 < downloaded_date e5"
    using lt c2 by (blast intro: less_trans)
  have ne: "e3 \<noteq> e1" "e3 \<noteq> e2" "e4 \<noteq> e1" "e4 \<noteq> e2" "e5 \<noteq> e1" "e5 \<noteq> e2" "e1 \<noteq> e2"
    using lt c c2 c3 by auto
  have idne: "row_id e3 \<noteq> row_id e1" "row_id e3 \<noteq> row_id e2" "row_id e4 \<noteq> row_id e1"
    "row_id e4 \<noteq> row_id e2" "row_id e5 \<noteq> row_id e1" "row_id e5 \<noteq> row_id e2"
    "row_id e1 \<noteq> row_id e2"
    using distinct_ids_differ [OF ids mem(3) mem(1) ne(1)]
      distinct_ids_differ [OF ids mem(3) mem(2) ne(2)]
      distinct_ids_differ [OF ids mem(4) mem(1) ne(3)]
      distinct_ids_differ [OF ids mem(4) mem(2) ne(4)]
      distinct_ids_differ [OF ids mem(5) mem(1) ne(5)]
      distinct_ids_differ [OF ids mem(5) mem(2) ne(6)]
      distinct_ids_differ [OF ids mem(1) mem(2) ne(7)]
    by simp_all
  have sub: "set (deleted_ids ops [e2, e1] w) \<subseteq> {row_id e2, row_id e1}"
    using f by (auto simp: deleted_ids_two)
  have keep3: "x \<in> set (get_episodes_with_drive ?name ?db')"
    if "x \<in> set (episodes db)" "is_present ?name x" "row_id x \<noteq> row_id e1" "row_id x \<noteq> row_id e2" for x
  proof -
    from that(3,4) sub have "row_id x \<notin> set (deleted_ids ops [e2, e1] w)" by auto
    with that(1) have "x \<in> set (clear_presence (deleted_ids ops [e2, e1] w) (episodes db))"
      by (rule clear_presence_keeps)
    with that(2) show ?thesis
      unfolding in_get_episodes_with_drive cat by (simp add: is_present_def)
  qed
  show "{e3, e4, e5} \<subseteq> set (get_episodes_with_drive ?name ?db')"
    using keep3 mem pres idne by simp
  assume d: "deleted_ids ops [e2, e1] w = [row_id e2, row_id e1]"
  have fl: "filter (is_present ?name) (episodes ?db')
          = filter (\<lambda>r. row_id r \<notin> set [row_id e2, row_id e1]) (filter (is_present ?name) (episodes db))"
    unfolding cat by (simp add: d filter_present_clear)
  have "mset (filter (is_present ?name) (episodes ?db'))
          = mset (filter (\<lambda>r. row_id r \<notin> set [row_id e2, row_id e1])
                   (filter (is_present ?name) (episodes db)))"
    by (simp only: fl)
  also have "\<dots> = filter_mset (\<lambda>r. row_id r \<notin> set [row_id e2, row_id e1])
                       (mset (filter (is_present ?name) (episodes db)))"
    by (simp only: mset_filter)
  also have "\<dots> = filter_mset (\<lambda>r. row_id r \<notin> set [row_id e2, row_id e1])
                       (mset [e1, e2, e3, e4, e5])"
    by (simp only: m)
  also have "\<dots> = mset [e3, e4, e5]" using idne by simp
  finally have "mset (filter (is_present ?name) (episodes ?db')) = mset [e3, e4, e5]" .
  then show "get_episodes_with_drive ?name ?db' = [e5, e4, e3]"
    unfolding get_episodes_with_drive_present using lt(3,4) by (rule three_newest_first)
qed

text \<open>
  C2. Let a feed have \<open>keep_count = 3\<close> and exactly five present episodes \<open>e1\<close> to
  \<open>e5\<close>, discovered in this order, in a catalog with distinct ids, and let the uploader
  be there. Then the present episodes, newest first, are \<open>e5\<close> to \<open>e1\<close>; one retention
  step calls delete for the remote object of \<open>e2\<close> and then for that of \<open>e1\<close> and for no
  other; \<open>e3\<close>, \<open>e4\<close> and \<open>e5\<close> are present afterwards; and when both deletes succeed the
  present episodes are then exactly \<open>e5\<close>, \<open>e4\<close>, \<open>e3\<close>, the rows of \<open>e1\<close> and \<open>e2\<close>
  having their flag cleared and nothing else changed. With \<open>keep_count = -1\<close>, or with no
  \<open>keep_count\<close> in the configuration and \<open>-1\<close> (or nothing) in the catalog, the step
  changes neither the catalog nor the world, whatever the catalog holds; and
  \<open>add_or_update_podcast\<close> stores \<open>-1\<close> for an absent \<open>keep_count\<close>.
\<close>

theorem retention_keeps_three_of_five:
  "(has_drive_uploader ops \<and> cfg_keep_count cfg = Some 3 \<and> distinct (map row_id (episodes db))
      \<and> mset (filter (is_present (cfg_name cfg)) (episodes db)) = mset [e1, e2, e3, e4, e5]
      \<and> downloaded_date e1 < downloaded_date e2 \<and> downloaded_date e2 < downloaded_date e3
      \<and> downloaded_date e3 < downloaded_date e4 \<and> downloaded_date e4 < downloaded_date e5
      \<and> truthy (drive_file_id e1) \<and> truthy (drive_file_id e2)
    \<longrightarrow> get_episodes_with_drive (cfg_name cfg) db = [e5, e4, e3, e2, e1]
      \<and> snd (enforce_retention ops cfg (db, w))
          = snd (delete_file ops (the (drive_file_id e1))
                  (snd (delete_file ops (the (drive_file_id e2)) w)))
      \<and> {e3, e4, e5} \<subseteq> set (get_episodes_with_drive (cfg_name cfg)
                              (fst (enforce_retention ops cfg (db, w))))
      \<and> (fst (delete_file ops (the (drive_file_id e2)) w) = Deleted
           \<and> fst (delete_file ops (the (drive_file_id e1))
                    (snd (delete_file ops (the (drive_file_id e2)) w))) = Deleted
          \<longrightarrow> get_episodes_with_drive (cfg_name cfg) (fst (enforce_retention ops cfg (db, w)))
                = [e5, e4, e3]
            \<and> episodes (fst (enforce_retention ops cfg (db, w)))
                = clear_presence [row_id e2, row_id e1] (episodes db)))
   \<and> (cfg_keep_count cfg = Some (- 1) \<or>
        cfg_keep_count cfg = None \<and>
          (case get_podcast (cfg_name cfg) (fst s) of
             Some p \<Rightarrow> pod_keep_count p = Some (- 1) \<or> pod_keep_count p = None
           | None \<Rightarrow> True)
       \<longrightarrow> enforce_retention ops cfg s = s)
   \<and> ((keep = None \<or> keep = Some (- 1))
        \<and> add_or_update_podcast n u f i keep now db0 = (Inr k, db1)
       \<longrightarrow> (\<exists>p. get_podcast n db1 = Some p \<and> pod_keep_count p = Some (- 1)))"
proof (intro conjI)
  show "has_drive_uploader ops \<and> cfg_keep_count cfg = Some 3 \<and> distinct (map row_id (episodes db))
      \<and> mset (filter (is_present (cfg_name cfg)) (episodes db)) = mset [e1, e2, e3, e4, e5]
      \<and> downloaded_date e1 < downloaded_date e2 \<and> downloaded_date e2 < downloaded_date e3
      \<and> downloaded_date e3 < downloaded_date e4 \<and> downloaded_date e4 < downloaded_date e5
      \<and> truthy (drive_file_id e1) \<and> truthy (drive_file_id e2)
    \<longrightarrow> get_episodes_with_drive (cfg_name cfg) db = [e5, e4, e3, e2, e1]
      \<and> snd (enforce_retention ops cfg (db, w))
          = snd (delete_file ops (the (drive_file_id e1))
                  (snd (delete_file ops (the (drive_file_id e2)) w)))
      \<and> {e3, e4, e5} \<subseteq> set (get_episodes_with_drive (cfg_name cfg)
                              (fst (enforce_retention ops cfg (db, w))))
      \<and> (fst (delete_file ops (the (drive_file_id e2)) w) = Deleted
           \<and> fst (delete_file ops (the (drive_file_id e1))
                    (snd (delete_file ops (the (drive_file_id e2)) w))) = Deleted
          \<longrightarrow> get_episodes_with_drive (cfg_name cfg) (fst (enforce_retention ops cfg (db, w)))
                = [e5, e4, e3]
            \<and> episodes (fst (enforce_retention ops cfg (db, w)))
                = clear_presence [row_id e2, row_id e1] (episodes db))"
  proof (intro impI, elim conjE)
    assume up: "has_drive_uploader ops" and keep: "cfg_keep_count cfg = Some 3"
      and ids: "distinct (map row_id (episodes db))"
      and m: "mset (filter (is_present (cfg_name cfg)) (episodes db)) = mset [e1, e2, e3, e4, e5]"
      and lt: "downloaded_date e1 < downloaded_date e2" "downloaded_date e2 < downloaded_date e3"
        "downloaded_date e3 < downloaded_date e4" "downloaded_date e4 < downloaded_date e5"
      and f: "truthy (drive_file_id e1)" "truthy (drive_file_id e2)"
    note r = retention_three_of_five [OF up keep ids m lt f]
    have er: "enforce_retention ops cfg (db, w) = remove_old_episodes ops [e2, e1] (db, w)"
      by (rule r(2))
    have a: "get_episodes_with_drive (cfg_name cfg) db = [e5, e4, e3, e2, e1]" by (rule r(1))
    have b: "snd (enforce_retention ops cfg (db, w))
          = snd (delete_file ops (the (drive_file_id e1))
                  (snd (delete_file ops (the (drive_file_id e2)) w)))"
      unfolding er by (rule remove_two_world [OF f(2) f(1)])
    have c: "{e3, e4, e5} \<subseteq> set (get_episodes_with_drive (cfg_name cfg)
                              (fst (enforce_retention ops cfg (db, w))))"
      unfolding er by (rule r(3))
    have d: "get_episodes_with_drive (cfg_name cfg) (fst (enforce_retention ops cfg (db, w)))
                = [e5, e4, e3]
            \<and> episodes (fst (enforce_retention ops cfg (db, w)))
                = clear_presence [row_id e2, row_id e1] (episodes db)"
      if ok: "fst (delete_file ops (the (drive_file_id e2)) w) = Deleted
           \<and> fst (delete_file ops (the (drive_file_id e1))
                    (snd (delete_file ops (the (drive_file_id e2)) w))) = Deleted"
    proof -
      from ok have di: "deleted_ids ops [e2, e1] w = [row_id e2, row_id e1]"
        by (simp add: deleted_ids_two [OF f(2) f(1)])
      have "fst (remove_old_episodes ops [e2, e1] (db, w))
              = db\<lparr>episodes := clear_presence (deleted_ids ops [e2, e1] w) (episodes db)\<rparr>"
        by (rule remove_old_episodes_catalog)
      then have "episodes (fst (remove_old_episodes ops [e2, e1] (db, w)))
              = clear_presence [row_id e2, row_id e1] (episodes db)"
        by (simp only: di) simp
      with r(4) [OF di] show ?thesis unfolding er by simp
    qed
    from a b c d show "get_episodes_with_drive (cfg_name cfg) db = [e5, e4, e3, e2, e1]
      \<and> snd (enforce_retention ops cfg (db, w))
          = snd (delete_file ops (the (drive_file_id e1))
                  (snd (delete_file ops (the (drive_file_id e2)) w)))
      \<and> {e3, e4, e5} \<subseteq> set (get_episodes_with_drive (cfg_name cfg)
                              (fst (enforce_retention ops cfg (db, w))))
      \<and> (fst (delete_file ops (the (drive_file_id e2)) w) = Deleted
           \<and> fst (delete_file ops (the (drive_file_id e1))
                    (snd (delete_file ops (the (drive_file_id e2)) w))) = Deleted
          \<longrightarrow> get_episodes_with_drive (cfg_name cfg) (fst (enforce_retention ops cfg (db, w)))
                = [e5, e4, e3]
            \<and> episodes (fst (enforce_retention ops cfg (db, w)))
                = clear_presence [row_id e2, row_id e1] (episodes db))"
      by blast
  qed
next
  show "cfg_keep_count cfg = Some (- 1) \<or>
        cfg_keep_count cfg = None \<and>
          (case get_podcast (cfg_name cfg) (fst s) of
             Some p \<Rightarrow> pod_keep_count p = Some (- 1) \<or> pod_keep_count p = None
           | None \<Rightarrow> True)
       \<longrightarrow> enforce_retention ops cfg s = s"
    using enforce_retention_keep_all [of cfg s ops] by blast
next
  show "(keep = None \<or> keep = Some (- 1))
        \<and> add_or_update_podcast n u f i keep now db0 = (Inr k, db1)
       \<longrightarrow> (\<exists>p. get_podcast n db1 = Some p \<and> pod_keep_count p = Some (- 1))"
    using add_or_update_podcast_keep_all [of keep n u f i now db0 k db1] by blast
qed

theorem retention_keeps_three_of_five_witness:
  "map row_id (get_episodes_with_drive (ustr ''A'') five_present) = [5, 4, 3, 2, 1]
   \<and> map row_id (get_episodes_with_drive (ustr ''A'')
        (fst (enforce_retention (sample_ops NoChannel) (sample_cfg (Some 3))
               (five_present, world_with [])))) = [5, 4, 3]
   \<and> map (\<lambda>r. (row_id r, in_drive r))
        (episodes (fst (enforce_retention (sample_ops NoChannel) (sample_cfg (Some 3))
               (five_present, world_with []))))
       = [(3, 1), (1, 0), (5, 1), (2, 0), (4, 1)]
   \<and> enforce_retention (sample_ops NoChannel) (sample_cfg (Some (- 1))) (five_present, world_with [])
       = (five_present, world_with [])
   \<and> enforce_retention (sample_ops NoChannel) (sample_cfg None) (five_present, world_with [])
       = (five_present, world_with [])"
proof -
  let ?ops = "sample_ops NoChannel"
  let ?w = "world_with []"
  let ?A = "ustr ''A''"
  have h1: "has_drive_uploader ?ops" by (simp add: sample_ops_def)
  have h2: "cfg_keep_count (sample_cfg (Some 3)) = Some 3" by (simp add: sample_cfg_def)
  have h3: "distinct (map row_id (episodes five_present))"
    by (simp add: retention_defs sample_defs)
  have n: "cfg_name (sample_cfg x) = ?A" for x by (simp add: sample_cfg_def)
  have pr: "is_present ?A (present_row i)" for i
    by (simp add: is_present_def present_row_def sample_row_def)
  have "filter (is_present ?A) (episodes five_present)
          = [present_row 3, present_row 1, present_row 5, present_row 2, present_row 4]"
    by (simp add: five_present_def catalog_of_def pr)
  then have h4: "mset (filter (is_present (cfg_name (sample_cfg (Some 3)))) (episodes five_present))
          = mset [present_row 1, present_row 2, present_row 3, present_row 4, present_row 5]"
    by (simp add: n ac_simps)
  have h5: "downloaded_date (present_row 1) < downloaded_date (present_row 2)"
    "downloaded_date (present_row 2) < downloaded_date (present_row 3)"
    "downloaded_date (present_row 3) < downloaded_date (present_row 4)"
    "downloaded_date (present_row 4) < downloaded_date (present_row 5)"
    by (simp_all add: present_row_def sample_row_def)
  have h6: "truthy (drive_file_id (present_row 1))" "truthy (drive_file_id (present_row 2))"
    by (simp_all add: present_row_def sample_row_def ustr_def)
  have h7: "fst (delete_file ?ops (the (drive_file_id (present_row 2))) ?w) = Deleted"
    "fst (delete_file ?ops (the (drive_file_id (present_row 1)))
          (snd (delete_file ?ops (the (drive_file_id (present_row 2))) ?w))) = Deleted"
    by (simp_all add: sample_ops_def world_with_def)
  note inst = retention_keeps_three_of_five
    [of ?ops "sample_cfg (Some 3)" five_present "present_row 1" "present_row 2" "present_row 3"
        "present_row 4" "present_row 5" ?w]
  have pre: "has_drive_uploader ?ops \<and> cfg_keep_count (sample_cfg (Some 3)) = Some 3
      \<and> distinct (map row_id (episodes five_present))
      \<and> mset (filter (is_present (cfg_name (sample_cfg (Some 3)))) (episodes five_present))
          = mset [present_row 1, present_row 2, present_row 3, present_row 4, present_row 5]
      \<and> downloaded_date (present_row 1) < downloaded_date (present_row 2)
      \<and> downloaded_date (present_row 2) < downloaded_date (present_row 3)
      \<and> downloaded_date (present_row 3) < downloaded_date (present_row 4)
      \<and> downloaded_date (present_row 4) < downloaded_date (present_row 5)
      \<and> truthy (drive_file_id (present_row 1)) \<and> truthy (drive_file_id (present_row 2))"
    by (intro conjI h1 h2 h3 h4 h5 h6)
  note part1 = inst [THEN conjunct1, THEN mp, OF pre]
  have a: "get_episodes_with_drive ?A five_present
             = [present_row 5, present_row 4, present_row 3, present_row 2, present_row 1]"
    using part1 [THEN conjunct1] by (simp only: n)
  note both = part1 [THEN conjunct2, THEN conjunct2, THEN conjunct2, THEN mp, OF conjI [OF h7]]
  have b: "get_episodes_with_drive ?A (fst (enforce_retention ?ops (sample_cfg (Some 3)) (five_present, ?w)))
             = [present_row 5, present_row 4, present_row 3]"
    using both [THEN conjunct1] by (simp only: n)
  have c: "episodes (fst (enforce_retention ?ops (sample_cfg (Some 3)) (five_present, ?w)))
             = clear_presence [row_id (present_row 2), row_id (present_row 1)] (episodes five_present)"
    using both [THEN conjunct2] .
  have ids: "row_id (present_row i) = i" for i by (simp add: present_row_def sample_row_def)
  have a': "map row_id (get_episodes_with_drive ?A five_present) = [5, 4, 3, 2, 1]"
    by (simp only: a) (simp add: ids)
  have b': "map row_id (get_episodes_with_drive ?A
        (fst (enforce_retention ?ops (sample_cfg (Some 3)) (five_present, ?w)))) = [5, 4, 3]"
    by (simp only: b) (simp add: ids)
  have c': "map (\<lambda>r. (row_id r, in_drive r))
        (episodes (fst (enforce_retention ?ops (sample_cfg (Some 3)) (five_present, ?w))))
       = [(3, 1), (1, 0), (5, 1), (2, 0), (4, 1)]"
    by (simp only: c) (simp add: clear_presence_def retention_defs sample_defs)
  have k1: "cfg_keep_count (sample_cfg (Some (- 1))) = Some (- 1)" by (simp add: sample_cfg_def)
  have d: "enforce_retention ?ops (sample_cfg (Some (- 1))) (five_present, ?w) = (five_present, ?w)"
    by (rule retention_keeps_three_of_five [THEN conjunct2, THEN conjunct1, THEN mp])
       (rule disjI1 [OF k1])
  have k2: "cfg_keep_count (sample_cfg None) = None \<and>
        (case get_podcast (cfg_name (sample_cfg None)) (fst (five_present, ?w)) of
           Some p \<Rightarrow> pod_keep_count p = Some (- 1) \<or> pod_keep_count p = None
         | None \<Rightarrow> True)"
    by (simp add: sample_cfg_def get_podcast_def five_present_def catalog_of_def)
  have e: "enforce_retention ?ops (sample_cfg None) (five_present, ?w) = (five_present, ?w)"
    by (rule retention_keeps_three_of_five [THEN conjunct2, THEN conjunct1, THEN mp])
       (rule disjI2 [OF k2])
  from a' b' c' d e show ?thesis by blast
qed

section \<open>The orchestration pass\<close>






text \<open>
  Two feeds over a catalog whose podcast id counter is stale: the first raises a
  uniqueness violation, the second is processed and downloads and uploads one episode.
\<close>

lemma download_episode_stream_cases:
  "download_episode_stream lib ops episode w =
     (case ep_audio_url episode of
        None \<Rightarrow> (None, w)
      | Some audio_url \<Rightarrow>
          if audio_url = [] \<or> url_suffix lib audio_url = None \<or> ep_title episode = PyNone
          then (None, w)
          else (case download_to_stream ops audio_url w of
                  (Some stream, w1) \<Rightarrow>
                    (Some (stream, projr (generate_filename lib episode audio_url)), w1)
                | (None, w1) \<Rightarrow> (None, w1)))"
proof (cases "ep_audio_url episode")
  case None
  then show ?thesis by (simp add: download_episode_stream_def)
next
  case (Some audio_url)
  show ?thesis
  proof (cases "url_suffix lib audio_url = None \<or> ep_title episode = PyNone")
    case True
    then have "isl (generate_filename lib episode audio_url)"
      using generate_filename_raises [of lib audio_url episode]
      by (cases "url_suffix lib audio_url") auto
    with True Some show ?thesis
      by (cases "generate_filename lib episode audio_url") (auto simp: download_episode_stream_def)
  next
    case False
    then obtain suffix where sfx: "url_suffix lib audio_url = Some suffix"
      and tn: "ep_title episode \<noteq> PyNone"
      by auto
    from generate_filename_shape [OF sfx tn] obtain name
      where g: "generate_filename lib episode audio_url = Inr name" by blast
    show ?thesis using Some sfx tn g
      by (simp add: download_episode_stream_def split: prod.splits option.splits)
  qed
qed

lemmas pass_defs =
  process_single_podcast_def add_or_update_podcast_def feed_parser_get_latest_episodes_def
  downloader_get_latest_episodes_def py_sort_desc_def comparable_def sort_desc_def
  item_to_episode_def str_or_def
  episode_exists_def add_episode_def max_podcast_seq_def seqs_of_def get_episode_by_id_def
  assign_upload_num_def download_episode_stream_cases update_episode_drive_info_def
  enforce_retention_def effective_keep_def get_podcast_def get_episodes_with_drive_def
  mark_episode_in_drive_def log_run_history_def folders_for_def get_podcasts_def
  List.map_filter_def Let_def




section \<open>Repeated passes\<close>

lemma episode_exists_known:
  assumes "truthy (ep_audio_url e)"
  shows "episode_exists (ep_audio_url e) (ep_guid e) db \<longleftrightarrow> the (ep_audio_url e) \<in> known_urls db"
proof -
  from assms obtain u where u: "ep_audio_url e = Some u" by (cases "ep_audio_url e") simp_all
  with assms show ?thesis by (auto simp: episode_exists_def known_urls_def)
qed

lemma add_episode_fresh:
  assumes "serial_ahead db" "url \<notin> known_urls db"
  shows "\<exists>r. add_episode name title url guid pub fp dfid fsize pseq now db
            = (Inr (next_episode_id db),
               db\<lparr>next_episode_id := next_episode_id db + 1, episodes := episodes db @ [r]\<rparr>)
          \<and> episode_url r = url \<and> row_id r = next_episode_id db"
proof -
  from assms have "\<not> (\<exists>r \<in> set (episodes db). episode_url r = url \<or> row_id r = next_episode_id db)"
    by (force simp: serial_ahead_def known_urls_def)
  then show ?thesis
    by (simp add: add_episode_def Let_def) (rule exI, rule conjI, rule refl, simp)
qed

lemma insert_new_episodes_total:
  assumes "serial_ahead db" "\<forall>e \<in> set eps. truthy (ep_audio_url e) \<and> ep_title e \<noteq> PyNone"
  shows "\<exists>recs' db' w'. insert_new_episodes ops name eps recs (db, w) = (Inr recs', (db', w'))
           \<and> serial_ahead db' \<and> known_urls db \<subseteq> known_urls db'
           \<and> (\<forall>e \<in> set eps. the (ep_audio_url e) \<in> known_urls db')
           \<and> podcasts db' = podcasts db"
  using assms
proof (induction eps arbitrary: recs db w)
  case Nil
  then show ?case by simp
next
  case (Cons e rest)
  from Cons.prems have t: "truthy (ep_audio_url e)" and tn: "ep_title e \<noteq> PyNone"
    and tr: "\<forall>e \<in> set rest. truthy (ep_audio_url e) \<and> ep_title e \<noteq> PyNone"
    by simp_all
  from dict_get_title [OF tn] obtain title where ttl: "dict_get (ep_title e) [] = Some title"
    by blast
  from t obtain u where u: "ep_audio_url e = Some u" by (cases "ep_audio_url e") simp_all
  show ?case
  proof (cases "episode_exists (ep_audio_url e) (ep_guid e) db")
    case True
    with t have k: "the (ep_audio_url e) \<in> known_urls db" by (simp add: episode_exists_known)
    from Cons.IH [OF Cons.prems(1) tr, of recs w]
    obtain recs' db' w' where r: "insert_new_episodes ops name rest recs (db, w) = (Inr recs', (db', w'))"
      "serial_ahead db'" "known_urls db \<subseteq> known_urls db'"
      "\<forall>e \<in> set rest. the (ep_audio_url e) \<in> known_urls db'" "podcasts db' = podcasts db"
      by blast
    from True r(1) have "insert_new_episodes ops name (e # rest) recs (db, w) = (Inr recs', (db', w'))"
      by simp
    moreover from k r(3) have "the (ep_audio_url e) \<in> known_urls db'" by blast
    ultimately show ?thesis using r(2-5) by simp
  next
    case False
    have nk: "u \<notin> known_urls db" using False episode_exists_known [OF t, of db] u by simp
    obtain now w1 where c: "clock ops w = (now, w1)" by (cases "clock ops w")
    let ?add = "add_episode name title u
                  (case ep_guid e of Some g \<Rightarrow> Some g | None \<Rightarrow> Some [])
                  (ep_published e) None None None None now db"
    from add_episode_fresh [OF Cons.prems(1) nk]
    obtain r where a: "?add = (Inr (next_episode_id db),
               db\<lparr>next_episode_id := next_episode_id db + 1, episodes := episodes db @ [r]\<rparr>)"
      and ru: "episode_url r = u" and ri: "row_id r = next_episode_id db" by blast
    let ?db1 = "db\<lparr>next_episode_id := next_episode_id db + 1, episodes := episodes db @ [r]\<rparr>"
    have s1: "serial_ahead ?db1" using Cons.prems(1) ri by (auto simp: serial_ahead_def)
    have k1: "known_urls ?db1 = insert u (known_urls db)" using ru by (auto simp: known_urls_def)
    obtain e2 where step: "insert_new_episodes ops name (e # rest) recs (db, w)
        = insert_new_episodes ops name rest (recs @ [(e2, next_episode_id db)]) (?db1, w1)"
      using False c a u ttl by (simp add: Let_def)
    from Cons.IH [OF s1 tr, of "recs @ [(e2, next_episode_id db)]" w1]
    obtain recs' db' w' where r: "insert_new_episodes ops name rest (recs @ [(e2, next_episode_id db)]) (?db1, w1)
          = (Inr recs', (db', w'))"
      "serial_ahead db'" "known_urls ?db1 \<subseteq> known_urls db'"
      "\<forall>e \<in> set rest. the (ep_audio_url e) \<in> known_urls db'" "podcasts db' = podcasts ?db1"
      by blast
    from r(3) k1 u have "the (ep_audio_url e) \<in> known_urls db'" "known_urls db \<subseteq> known_urls db'"
      by auto
    with step r show ?thesis by simp
  qed
qed

lemma insert_new_episodes_known:
  assumes "\<forall>e \<in> set eps. episode_exists (ep_audio_url e) (ep_guid e) db"
  shows "insert_new_episodes ops name eps recs (db, w) = (Inr recs, (db, w))"
  using assms by (induction eps) simp_all

lemma transfer_episodes_rows:
  "map episode_url (episodes (fst (snd (transfer_episodes lib ops folder recs counts (db, w)))))
     = map episode_url (episodes db)
   \<and> podcasts (fst (snd (transfer_episodes lib ops folder recs counts (db, w)))) = podcasts db"
proof (induction recs arbitrary: counts db w folder)
  case Nil
  show ?case by simp
next
  case (Cons rec rest)
  obtain episode episode_id where rec: "rec = (episode, episode_id)" by (cases rec)
  obtain d u where counts: "counts = (d, u)" by (cases counts)
  have upd: "\<And>i f g. map episode_url (episodes (update_episode_drive_info i f g db)) = map episode_url (episodes db)"
       "\<And>i f g. podcasts (update_episode_drive_info i f g db) = podcasts db"
    by (simp_all add: update_episode_drive_info_def comp_def)
  show ?case
    unfolding rec counts
    by (simp add: Cons.IH upd split: prod.splits option.splits)
qed

lemma without_presence_clear: "without_presence (clear_presence ids rows) = without_presence rows"
  by (simp add: without_presence_def clear_presence_def)

lemma enforce_retention_rows:
  "\<exists>ids. fst (enforce_retention ops cfg (db, w)) = db\<lparr>episodes := clear_presence ids (episodes db)\<rparr>"
proof -
  have e: "db = db\<lparr>episodes := clear_presence [] (episodes db)\<rparr>"
    by (simp add: clear_presence_def)
  show ?thesis
  proof (cases "enforce_retention ops cfg (db, w) = (db, w)")
    case True
    then have "fst (enforce_retention ops cfg (db, w)) = db\<lparr>episodes := clear_presence [] (episodes db)\<rparr>"
      using e by simp
    then show ?thesis by blast
  next
    case False
    then obtain eps where "enforce_retention ops cfg (db, w) = remove_old_episodes ops eps (db, w)"
      by (auto simp: enforce_retention_def Let_def split: option.splits if_splits)
    then show ?thesis using remove_old_episodes_catalog [of ops eps db w] by metis
  qed
qed

lemma enforce_retention_off:
  assumes "retention_off ops cfg"
    and "cfg_keep_count cfg = None \<longrightarrow>
           (\<exists>p. get_podcast (cfg_name cfg) (fst s) = Some p \<and> pod_keep_count p = Some (- 1))"
  shows "enforce_retention ops cfg s = s"
  using assms
  by (auto simp: enforce_retention_def effective_keep_def retention_off_def split: option.splits)


lemma downloader_subset:
  assumes "downloader_get_latest_episodes lib eps = Inr latest"
  shows "set latest \<subseteq> set eps"
proof
  fix e
  assume "e \<in> set latest"
  with assms obtain d where "(d, e) \<in> set (take 5 (sort_desc fst
      (List.map_filter
         (\<lambda>ep. case (case ep_published ep of
                        Some date_str \<Rightarrow> if date_str \<noteq> [] then parse_date lib date_str else None
                      | None \<Rightarrow> None) of
                  Some parsed \<Rightarrow> Some (parsed, ep)
                | None \<Rightarrow> None) eps)))"
    by (auto simp: downloader_get_latest_episodes_def py_sort_desc_def Let_def split: if_splits)
  then have "(d, e) \<in> set (List.map_filter
         (\<lambda>ep. case (case ep_published ep of
                        Some date_str \<Rightarrow> if date_str \<noteq> [] then parse_date lib date_str else None
                      | None \<Rightarrow> None) of
                  Some parsed \<Rightarrow> Some (parsed, ep)
                | None \<Rightarrow> None) eps)"
    using set_take_subset set_sort_desc by fastforce
  then show "e \<in> set eps"
    by (auto simp: List.map_filter_def split: option.splits)
qed

lemma feed_parser_audio:
  assumes "e \<in> set (feed_parser_get_latest_episodes lib doc n)"
  shows "truthy (ep_audio_url e) \<and> ep_title e \<noteq> PyNone"
proof (cases doc)
  case (Channel items)
  with assms have "e \<in> set (take n (sort_desc (\<lambda>e. the (ep_parsed e)) (valid_episodes lib items)))"
    by (simp add: feed_parser_unfold split: if_splits)
  then have "e \<in> set (valid_episodes lib items)"
    using set_take_subset set_sort_desc by fastforce
  then show ?thesis using valid_episodes_parsed(3,4) by blast
qed (use assms in \<open>simp_all add: feed_parser_get_latest_episodes_def\<close>)

lemma select_candidates_cases:
  "select_candidates lib doc =
     (if feed_parser_get_latest_episodes lib doc 50 = []
         \<or> isl (downloader_get_latest_episodes lib (feed_parser_get_latest_episodes lib doc 50))
      then []
      else rev (projr (downloader_get_latest_episodes lib (feed_parser_get_latest_episodes lib doc 50))))"
  by (cases "downloader_get_latest_episodes lib (feed_parser_get_latest_episodes lib doc 50)")
     (simp_all add: select_candidates_def Let_def)

lemma select_candidates_audio:
  assumes "e \<in> set (select_candidates lib doc)"
  shows "truthy (ep_audio_url e) \<and> ep_title e \<noteq> PyNone"
proof -
  let ?eps = "feed_parser_get_latest_episodes lib doc 50"
  from assms obtain latest where l: "downloader_get_latest_episodes lib ?eps = Inr latest"
    and e: "e \<in> set latest"
    by (cases "downloader_get_latest_episodes lib ?eps")
       (auto simp: select_candidates_cases split: if_splits)
  from downloader_subset [OF l] e have "e \<in> set ?eps" by blast
  then show ?thesis by (rule feed_parser_audio)
qed

lemma add_or_update_podcast_episodes:
  "episodes (snd (add_or_update_podcast n u f i keep now db)) = episodes db
   \<and> next_episode_id (snd (add_or_update_podcast n u f i keep now db)) = next_episode_id db"
  by (simp add: add_or_update_podcast_def Let_def split: option.splits)

lemma add_or_update_podcast_known:
  assumes "add_or_update_podcast n u f i (Some k) now db0 = (Inr pid, db1)"
  shows "\<exists>p. get_podcast n db1 = Some p \<and> pod_keep_count p = Some k"
proof (cases "find (\<lambda>p. pod_name p = n) (podcasts db0)")
  case None
  let ?new = "\<lparr>pod_id = next_podcast_id db0, pod_name = n, pod_rss_url = u,
                 pod_folder_name = f, pod_last_checked = Some now,
                 pod_drive_folder_id = i, pod_enabled = True,
                 pod_keep_count = Some k\<rparr>"
  from None assms have "podcasts db1 = podcasts db0 @ [?new]"
    by (auto simp: add_or_update_podcast_def Let_def split: if_splits)
  moreover have "find (\<lambda>p. pod_name p = n) (podcasts db0 @ [?new]) = Some ?new"
    using None by (intro find_append_new) simp_all
  ultimately show ?thesis by (simp add: get_podcast_def)
next
  case (Some old)
  let ?g = "\<lambda>p. p\<lparr>pod_rss_url := u, pod_folder_name := f, pod_last_checked := Some now,
                      pod_drive_folder_id := i, pod_keep_count := Some k\<rparr>"
  from Some assms have "podcasts db1 = map (\<lambda>p. if pod_name p = n then ?g p else p) (podcasts db0)"
    by (auto simp: add_or_update_podcast_def Let_def)
  moreover have "find (\<lambda>p. pod_name p = n) (map (\<lambda>p. if pod_name p = n then ?g p else p) (podcasts db0))
          = Some (?g old)" by (rule find_map_update [OF Some]) simp
  ultimately show ?thesis by (simp add: get_podcast_def)
qed

lemma add_or_update_podcast_again:
  assumes "get_podcast n db \<noteq> None"
  shows "\<exists>pid. fst (add_or_update_podcast n u f i keep now db) = Inr pid"
  using assms by (auto simp: add_or_update_podcast_def get_podcast_def Let_def)

lemma process_single_podcast_steps:
  assumes "clock ops (snd s) = (now, w1)"
    and "add_or_update_podcast (cfg_name cfg) (cfg_rss_url cfg) (cfg_folder_name cfg)
           (fm (cfg_folder_name cfg)) (Some (case cfg_keep_count cfg of None \<Rightarrow> - 1 | Some k \<Rightarrow> k))
           now (fst s) = (Inr pid, db1)"
    and "fetch_feed ops (cfg_rss_url cfg) w1 = (doc, w2)"
  shows "process_single_podcast lib ops cfg fm s =
     (if feed_parser_get_latest_episodes lib doc 50 = []
         \<or> isl (downloader_get_latest_episodes lib (feed_parser_get_latest_episodes lib doc 50))
      then (Inr (0, 0), (db1, w2))
      else (case insert_new_episodes ops (cfg_name cfg) (select_candidates lib doc) [] (db1, w2) of
              (Inl e, s3) \<Rightarrow> (Inr (0, 0), s3)
            | (Inr episode_records, s3) \<Rightarrow>
                (case transfer_episodes lib ops (fm (cfg_folder_name cfg))
                        (assign_upload_num episode_records) (0, 0) s3 of
                   (counts, s4) \<Rightarrow> (Inr counts, enforce_retention ops cfg s4))))"
  using assms
  by (cases "downloader_get_latest_episodes lib (feed_parser_get_latest_episodes lib doc 50)")
     (simp_all add: process_single_podcast_def select_candidates_def Let_def)

lemma first_pass_known:
  fixes lib :: "('d::linorder) pylib" and ops :: "('w, 't::linorder, 'b) world_ops"
  assumes serial: "serial_ahead (fst s)"
    and feed: "\<forall>w. fst (fetch_feed ops (cfg_rss_url cfg) w) = doc"
    and first: "process_single_podcast lib ops cfg fm s = (Inr counts, s1)"
  shows "(\<forall>e \<in> set (select_candidates lib doc). the (ep_audio_url e) \<in> known_urls (fst s1))
         \<and> get_podcast (cfg_name cfg) (fst s1) \<noteq> None"
proof -
  let ?keep = "case cfg_keep_count cfg of None \<Rightarrow> - 1 | Some k \<Rightarrow> k"
  obtain now w1 where c: "clock ops (snd s) = (now, w1)" by (cases "clock ops (snd s)")
  obtain r db1 where a: "add_or_update_podcast (cfg_name cfg) (cfg_rss_url cfg) (cfg_folder_name cfg)
           (fm (cfg_folder_name cfg)) (Some ?keep) now (fst s) = (r, db1)"
    by (cases "add_or_update_podcast (cfg_name cfg) (cfg_rss_url cfg) (cfg_folder_name cfg)
           (fm (cfg_folder_name cfg)) (Some ?keep) now (fst s)")
  obtain d w2 where f0: "fetch_feed ops (cfg_rss_url cfg) w1 = (d, w2)"
    by (cases "fetch_feed ops (cfg_rss_url cfg) w1")
  with feed have f: "fetch_feed ops (cfg_rss_url cfg) w1 = (doc, w2)" by (metis fst_conv)
  from first c a obtain pid where r: "r = Inr pid"
    by (cases r) (simp_all add: process_single_podcast_def Let_def)
  note a = a [unfolded r]
  note steps = process_single_podcast_steps [where fm = fm and lib = lib, OF c a f]
  from add_or_update_podcast_episodes [of "cfg_name cfg" "cfg_rss_url cfg" "cfg_folder_name cfg"
      "fm (cfg_folder_name cfg)" "Some ?keep" now "fst s"] a
  have e1: "episodes db1 = episodes (fst s)" "next_episode_id db1 = next_episode_id (fst s)" by simp_all
  with serial have s1: "serial_ahead db1" by (simp add: serial_ahead_def)
  from add_or_update_podcast_known [OF a] have p1: "get_podcast (cfg_name cfg) db1 \<noteq> None" by auto
  show ?thesis
  proof (cases "feed_parser_get_latest_episodes lib doc 50 = []
      \<or> isl (downloader_get_latest_episodes lib (feed_parser_get_latest_episodes lib doc 50))")
    case True
    with steps first have "s1 = (db1, w2)" by simp
    moreover from True have "select_candidates lib doc = []" by (simp add: select_candidates_cases)
    ultimately show ?thesis using p1 by simp
  next
    case False
    have tr: "\<forall>e \<in> set (select_candidates lib doc). truthy (ep_audio_url e) \<and> ep_title e \<noteq> PyNone"
      using select_candidates_audio by blast
    from insert_new_episodes_total [OF s1 tr, of ops "cfg_name cfg" "[]" w2]
    obtain recs db3 w3 where
      i: "insert_new_episodes ops (cfg_name cfg) (select_candidates lib doc) [] (db1, w2) = (Inr recs, (db3, w3))"
      and k3: "\<forall>e \<in> set (select_candidates lib doc). the (ep_audio_url e) \<in> known_urls db3"
      and p3: "podcasts db3 = podcasts db1"
      by blast
    obtain counts' db4 w4 where
      t: "transfer_episodes lib ops (fm (cfg_folder_name cfg)) (assign_upload_num recs) (0, 0) (db3, w3)
            = (counts', (db4, w4))"
      by (cases "transfer_episodes lib ops (fm (cfg_folder_name cfg)) (assign_upload_num recs) (0, 0) (db3, w3)") auto
    from transfer_episodes_rows [of lib ops "fm (cfg_folder_name cfg)" "assign_upload_num recs" "(0, 0)" db3 w3] t
    have r4: "map episode_url (episodes db4) = map episode_url (episodes db3)" and p4: "podcasts db4 = podcasts db3"
      by simp_all
    from steps False i t first have s1eq: "s1 = enforce_retention ops cfg (db4, w4)" by simp
    from enforce_retention_rows [of ops cfg db4 w4] obtain ids where
      "fst (enforce_retention ops cfg (db4, w4)) = db4\<lparr>episodes := clear_presence ids (episodes db4)\<rparr>"
      by blast
    with s1eq have f1: "fst s1 = db4\<lparr>episodes := clear_presence ids (episodes db4)\<rparr>" by simp
    have "map episode_url (clear_presence ids (episodes db4)) = map episode_url (episodes db4)"
      by (simp add: clear_presence_def comp_def)
    with f1 r4 have "map episode_url (episodes (fst s1)) = map episode_url (episodes db3)" by simp
    then have "set (map episode_url (episodes (fst s1))) = set (map episode_url (episodes db3))" by simp
    then have ku: "known_urls (fst s1) = known_urls db3" by (simp add: known_urls_def)
    from f1 p4 p3 have "podcasts (fst s1) = podcasts db1" by simp
    with p1 have "get_podcast (cfg_name cfg) (fst s1) \<noteq> None" by (simp add: get_podcast_def)
    with k3 ku show ?thesis by simp
  qed
qed

lemma repeated_pass_rows:
  fixes lib :: "('d::linorder) pylib" and ops :: "('w, 't::linorder, 'b) world_ops"
  assumes known: "\<forall>e \<in> set (select_candidates lib doc). episode_exists (ep_audio_url e) (ep_guid e) (fst s)"
    and pod: "get_podcast (cfg_name cfg) (fst s) \<noteq> None"
    and feed: "\<forall>w. fst (fetch_feed ops (cfg_rss_url cfg) w) = doc"
  shows "fst (process_single_podcast lib ops cfg fm s) = Inr (0, 0)
         \<and> (\<exists>ids. episodes (fst (snd (process_single_podcast lib ops cfg fm s)))
                    = clear_presence ids (episodes (fst s)))
         \<and> (retention_off ops cfg \<longrightarrow>
              episodes (fst (snd (process_single_podcast lib ops cfg fm s))) = episodes (fst s))"
proof -
  let ?keep = "case cfg_keep_count cfg of None \<Rightarrow> - 1 | Some k \<Rightarrow> k"
  obtain now w1 where c: "clock ops (snd s) = (now, w1)" by (cases "clock ops (snd s)")
  obtain r db1 where a0: "add_or_update_podcast (cfg_name cfg) (cfg_rss_url cfg) (cfg_folder_name cfg)
           (fm (cfg_folder_name cfg)) (Some ?keep) now (fst s) = (r, db1)"
    by (cases "add_or_update_podcast (cfg_name cfg) (cfg_rss_url cfg) (cfg_folder_name cfg)
           (fm (cfg_folder_name cfg)) (Some ?keep) now (fst s)")
  with add_or_update_podcast_again [OF pod, of "cfg_rss_url cfg" "cfg_folder_name cfg"
      "fm (cfg_folder_name cfg)" "Some ?keep" now]
  obtain pid where r: "r = Inr pid" by auto
  note a = a0 [unfolded r]
  obtain d w2 where f0: "fetch_feed ops (cfg_rss_url cfg) w1 = (d, w2)"
    by (cases "fetch_feed ops (cfg_rss_url cfg) w1")
  with feed have f: "fetch_feed ops (cfg_rss_url cfg) w1 = (doc, w2)" by (metis fst_conv)
  note steps = process_single_podcast_steps [where fm = fm and lib = lib, OF c a f]
  from add_or_update_podcast_episodes [of "cfg_name cfg" "cfg_rss_url cfg" "cfg_folder_name cfg"
      "fm (cfg_folder_name cfg)" "Some ?keep" now "fst s"] a
  have e1: "episodes db1 = episodes (fst s)" by simp
  have cl: "episodes (fst s) = clear_presence [] (episodes (fst s))" by (simp add: clear_presence_def)
  show ?thesis
  proof (cases "feed_parser_get_latest_episodes lib doc 50 = []
      \<or> isl (downloader_get_latest_episodes lib (feed_parser_get_latest_episodes lib doc 50))")
    case True
    with steps have ps: "process_single_podcast lib ops cfg fm s = (Inr (0, 0), (db1, w2))" by simp
    have "\<exists>ids. episodes db1 = clear_presence ids (episodes (fst s))"
      using cl e1 by metis
    with ps e1 show ?thesis by simp
  next
    case False
    from known have "\<forall>e \<in> set (select_candidates lib doc). episode_exists (ep_audio_url e) (ep_guid e) db1"
      unfolding episode_exists_def e1 .
    then have i: "insert_new_episodes ops (cfg_name cfg) (select_candidates lib doc) [] (db1, w2)
            = (Inr [], (db1, w2))"
      by (rule insert_new_episodes_known)
    from steps False i
    have ps: "process_single_podcast lib ops cfg fm s = (Inr (0, 0), enforce_retention ops cfg (db1, w2))"
      by (simp add: assign_upload_num_def)
    from enforce_retention_rows [of ops cfg db1 w2] obtain ids where
      "fst (enforce_retention ops cfg (db1, w2)) = db1\<lparr>episodes := clear_presence ids (episodes db1)\<rparr>"
      by blast
    then have "episodes (fst (enforce_retention ops cfg (db1, w2))) = clear_presence ids (episodes (fst s))"
      using e1 by simp
    then have ex: "\<exists>ids. episodes (fst (enforce_retention ops cfg (db1, w2))) = clear_presence ids (episodes (fst s))"
      by blast
    have off: "episodes (fst (enforce_retention ops cfg (db1, w2))) = episodes (fst s)"
      if ro: "retention_off ops cfg"
    proof -
      have "cfg_keep_count cfg = None \<longrightarrow>
              (\<exists>p. get_podcast (cfg_name cfg) (fst (db1, w2)) = Some p \<and> pod_keep_count p = Some (- 1))"
        using add_or_update_podcast_known [OF a] by auto
      with ro have "enforce_retention ops cfg (db1, w2) = (db1, w2)" by (rule enforce_retention_off)
      with e1 show ?thesis by simp
    qed
    from ps ex off show ?thesis by simp
  qed
qed

text \<open>
  C3. Let the id counter of the episode table be ahead of every id, let the feed return
  the same content at every fetch, and let \<open>process_single_podcast\<close> have returned for the
  feed. Then in the state it left every candidate of the feed is found by
  \<open>episode_exists\<close>, and a second \<open>process_single_podcast\<close> for the feed downloads and
  uploads nothing, inserts no row, and leaves every row as it was except for the presence
  flag, which its retention step may clear. When the retention step is off (no uploader,
  or a \<open>keep_count\<close> that is absent or not positive) the episode table is identical before
  and after the second pass.
\<close>

theorem repeated_pass_inserts_nothing:
  fixes lib :: "('d::linorder) pylib" and ops :: "('w, 't::linorder, 'b) world_ops"
  assumes "serial_ahead (fst s)"
    and "\<forall>w. fst (fetch_feed ops (cfg_rss_url cfg) w) = doc"
    and "process_single_podcast lib ops cfg fm s = (Inr counts, s1)"
  shows "(\<forall>e \<in> set (select_candidates lib doc). episode_exists (ep_audio_url e) (ep_guid e) (fst s1))
       \<and> fst (process_single_podcast lib ops cfg fm' s1) = Inr (0, 0)
       \<and> length (episodes (fst (snd (process_single_podcast lib ops cfg fm' s1))))
           = length (episodes (fst s1))
       \<and> without_presence (episodes (fst (snd (process_single_podcast lib ops cfg fm' s1))))
           = without_presence (episodes (fst s1))
       \<and> (retention_off ops cfg \<longrightarrow>
            episodes (fst (snd (process_single_podcast lib ops cfg fm' s1))) = episodes (fst s1))"
proof -
  from first_pass_known [OF assms]
  have k: "\<forall>e \<in> set (select_candidates lib doc). the (ep_audio_url e) \<in> known_urls (fst s1)"
    and p: "get_podcast (cfg_name cfg) (fst s1) \<noteq> None" by simp_all
  have ex: "\<forall>e \<in> set (select_candidates lib doc). episode_exists (ep_audio_url e) (ep_guid e) (fst s1)"
  proof
    fix e assume e: "e \<in> set (select_candidates lib doc)"
    then have "truthy (ep_audio_url e)" using select_candidates_audio by blast
    then show "episode_exists (ep_audio_url e) (ep_guid e) (fst s1)"
      using k e by (simp add: episode_exists_known)
  qed
  note r = repeated_pass_rows [OF ex p assms(2), of fm']
  from r obtain ids where
    c: "episodes (fst (snd (process_single_podcast lib ops cfg fm' s1))) = clear_presence ids (episodes (fst s1))"
    by blast
  have l: "length (episodes (fst (snd (process_single_podcast lib ops cfg fm' s1)))) = length (episodes (fst s1))"
    unfolding c by (simp add: clear_presence_def)
  have w: "without_presence (episodes (fst (snd (process_single_podcast lib ops cfg fm' s1))))
           = without_presence (episodes (fst s1))"
    unfolding c by (rule without_presence_clear)
  from ex r l w show ?thesis by blast
qed

text \<open>
  A catalog that knows three of the four candidates of the feed: the first pass inserts
  the fourth, the second pass changes nothing.
\<close>

lemma three_rows_first_pass:
  "fst (sample_pass (Channel twelve_items) (feed_cfg (ustr ''A'')) (three_rows, world_with [])) = Inr (1, 0)"
  "map episode_url (episodes (fst (snd
      (sample_pass (Channel twelve_items) (feed_cfg (ustr ''A'')) (three_rows, world_with [])))))
     = [ustr ''u1'', ustr ''u2'', ustr ''u3'', ustr ''u4'']"
  by (simp_all add: sample_pass_def pass_defs feed_cfg_def twelve_items_def
      empty_catalog_def sample_ops_def world_with_def sample_item_def lib_defs sample_defs
      enumerate_eq_zip)

theorem repeated_pass_inserts_nothing_witness:
  "serial_ahead three_rows
   \<and> fst (sample_pass (Channel twelve_items) (feed_cfg (ustr ''A'')) (three_rows, world_with []))
       = Inr (1, 0)
   \<and> map episode_url (episodes (fst (snd
        (sample_pass (Channel twelve_items) (feed_cfg (ustr ''A'')) (three_rows, world_with [])))))
       = [ustr ''u1'', ustr ''u2'', ustr ''u3'', ustr ''u4'']
   \<and> fst (sample_pass (Channel twelve_items) (feed_cfg (ustr ''A''))
        (snd (sample_pass (Channel twelve_items) (feed_cfg (ustr ''A'')) (three_rows, world_with []))))
       = Inr (0, 0)
   \<and> episodes (fst (snd (sample_pass (Channel twelve_items) (feed_cfg (ustr ''A''))
        (snd (sample_pass (Channel twelve_items) (feed_cfg (ustr ''A'')) (three_rows, world_with []))))))
       = episodes (fst (snd
          (sample_pass (Channel twelve_items) (feed_cfg (ustr ''A'')) (three_rows, world_with []))))"
proof -
  let ?doc = "Channel twelve_items"
  let ?cfg = "feed_cfg (ustr ''A'')"
  let ?s = "(three_rows, world_with [])"
  let ?s1 = "snd (sample_pass ?doc ?cfg ?s)"
  have h1: "serial_ahead (fst ?s)" by (simp add: serial_ahead_def sample_defs)
  have h2: "\<forall>w. fst (fetch_feed (sample_ops ?doc) (cfg_rss_url ?cfg) w) = ?doc"
    by (simp add: sample_ops_def)
  have h3: "process_single_podcast sample_lib (sample_ops ?doc) ?cfg Map.empty ?s = (Inr (1, 0), ?s1)"
    using three_rows_first_pass(1) by (simp add: sample_pass_def prod_eq_iff)
  have off: "retention_off (sample_ops ?doc) ?cfg" by (simp add: retention_off_def feed_cfg_def)
  note inst = repeated_pass_inserts_nothing [OF h1 h2 h3, of Map.empty]
  have a: "fst (sample_pass ?doc ?cfg ?s1) = Inr (0, 0)"
    using inst [THEN conjunct2, THEN conjunct1] by (simp only: sample_pass_def)
  have b: "episodes (fst (snd (sample_pass ?doc ?cfg ?s1))) = episodes (fst ?s1)"
    using inst [THEN conjunct2, THEN conjunct2, THEN conjunct2, THEN conjunct2, THEN mp, OF off]
    by (simp only: sample_pass_def)
  from h1 have h1': "serial_ahead three_rows" by simp
  show ?thesis by (intro conjI h1' three_rows_first_pass a b)
qed

text \<open>
  Five present episodes, a limit of three, and a store whose first two deletes fail: the
  first pass leaves the five flags set, the second pass, over the same feed, clears two
  of them.
\<close>

theorem repeated_pass_identical_counterexample:
  "serial_ahead five_present
   \<and> fst (sample_pass one_item (sample_cfg (Some 3)) (five_present, world_with [DeleteFailed, DeleteFailed]))
       = Inr (0, 0)
   \<and> map in_drive (episodes (fst (snd
        (sample_pass one_item (sample_cfg (Some 3)) (five_present, world_with [DeleteFailed, DeleteFailed])))))
       = [1, 1, 1, 1, 1]
   \<and> map in_drive (episodes (fst (snd (sample_pass one_item (sample_cfg (Some 3))
        (snd (sample_pass one_item (sample_cfg (Some 3))
               (five_present, world_with [DeleteFailed, DeleteFailed])))))))
       = [1, 0, 1, 0, 1]
   \<and> episodes (fst (snd (sample_pass one_item (sample_cfg (Some 3))
        (snd (sample_pass one_item (sample_cfg (Some 3))
               (five_present, world_with [DeleteFailed, DeleteFailed]))))))
       \<noteq> episodes (fst (snd
          (sample_pass one_item (sample_cfg (Some 3)) (five_present, world_with [DeleteFailed, DeleteFailed]))))"
  by (simp add: serial_ahead_def sample_pass_def pass_defs one_item_def retention_defs
      sample_item_def lib_defs sample_defs enumerate_eq_zip)
end
